theory Spec2Isabelle
  imports Main "HOL-Library.Sublist" "HOL-Library.Word"
begin

section \<open>JavaScript values as the client sees them\<close>

text \<open>
  The client of \<^verbatim>\<open>src/SimpleSearchClient.ts\<close> passes documents, request bodies, response
  bodies and caught failures around at type \<^verbatim>\<open>any\<close>. They are modelled as JSON-like values.
  Objects live in a store and are named by their address, because the client mutates objects
  in place (\<^verbatim>\<open>shallowCopy["@search.action"] = ...\<close>, \<^verbatim>\<open>response.nextLink = ...\<close>);
  arrays are never mutated by the client and are kept as values.

  The data is what JSON text and \<^verbatim>\<open>new Error\<close> give: no property holds a function, so an
  own property named \<^verbatim>\<open>toString\<close> hides the inherited method behind a value that cannot
  be called. Strings that the client only passes on or joins are sequences of code units
  below 256; the key of \<open>lookup\<close>, whose code units matter, is a sequence of 16-bit code
  units. Numbers are the integers from \<open>- 2 ^ 53\<close> to \<open>2 ^ 53 - 1\<close>, held as a signed
  54-bit word: each of them is a double and is printed in decimal digits. An
  \<^verbatim>\<open>Error\<close> instance is an object with the name of its class, its message and its
  further own properties (Axios adds \<^verbatim>\<open>response\<close>).
\<close>

type_synonym addr = nat

datatype jsval =
    JUndefined
  | JNull
  | JBool bool
  | JNum "54 word"
  | JStr string
  | JArr "jsval list"
  | JRef addr

type_synonym props = "(string \<times> jsval) list"

datatype jsobj =
    PlainObj props
  | ErrorObj string string props

type_synonym heap = "jsobj list"

text \<open>Errors the client's own code raises: \<^verbatim>\<open>new Error(message)\<close>, and the
  \<^verbatim>\<open>TypeError\<close> of the runtime when a property of \<^verbatim>\<open>null\<close> or \<^verbatim>\<open>undefined\<close> is
  read, a property of a primitive is written (class bodies are strict code) or an object
  cannot be converted to a string, and the \<^verbatim>\<open>URIError\<close> of \<^verbatim>\<open>encodeURIComponent\<close>. The
  messages of the runtime's errors are worded as V8 words them.\<close>

datatype exn = Error string | TypeError string | URIError string

definition alloc :: "heap \<Rightarrow> jsobj \<Rightarrow> addr \<times> heap" where
  "alloc h obj = (length h, h @ [obj])"

text \<open>Every reference the program holds is allocated; an address outside the store reads
  as an object without properties.\<close>

definition deref :: "heap \<Rightarrow> addr \<Rightarrow> jsobj" where
  "deref h a = (if a < length h then h ! a else PlainObj [])"

fun truthy :: "jsval \<Rightarrow> bool" where
  "truthy JUndefined = False"
| "truthy JNull = False"
| "truthy (JBool b) = b"
| "truthy (JNum n) = (n \<noteq> 0)"
| "truthy (JStr s) = (s \<noteq> [])"
| "truthy (JArr xs) = True"
| "truthy (JRef a) = True"

subsection \<open>Conversion to string\<close>

function digits :: "int \<Rightarrow> string" where
  "digits i =
     (if i < 10 then [''0123456789'' ! nat i]
      else digits (i div 10) @ [''0123456789'' ! nat (i mod 10)])"
  by pat_completeness auto
termination
  by (relation "measure nat") auto

declare digits.simps [simp del]

definition dec_int :: "int \<Rightarrow> string" where
  "dec_int i = (if i < 0 then ''-'' @ digits (- i) else digits i)"

definition dec_nat :: "nat \<Rightarrow> string" where
  "dec_nat n = digits (int n)"

fun join_comma :: "string list \<Rightarrow> string" where
  "join_comma [] = []"
| "join_comma [s] = s"
| "join_comma (s # t # ss) = s @ '','' @ join_comma (t # ss)"

text \<open>\<^verbatim>\<open>Error.prototype.toString\<close>: the name, the message, or both.\<close>

definition error_toString :: "string \<Rightarrow> string \<Rightarrow> string" where
  "error_toString name msg =
     (if name = [] then msg else if msg = [] then name else name @ '': '' @ msg)"

text \<open>A primitive value as a string.\<close>

fun prim_string :: "jsval \<Rightarrow> string" where
  "prim_string JUndefined = ''undefined''"
| "prim_string JNull = ''null''"
| "prim_string (JBool b) = (if b then ''true'' else ''false'')"
| "prim_string (JNum n) = dec_int (sint n)"
| "prim_string (JStr s) = s"
| "prim_string v = []"

text \<open>The strings of the elements of an array, in order, unless one conversion raises.\<close>

fun collect :: "(exn + string) list \<Rightarrow> exn + string list" where
  "collect [] = Inr []"
| "collect (Inl e # rs) = Inl e"
| "collect (Inr s # rs) = (case collect rs of Inl e \<Rightarrow> Inl e | Inr ss \<Rightarrow> Inr (s # ss))"

definition own_properties :: "jsobj \<Rightarrow> (string \<times> jsval) list" where
  "own_properties obj = (case obj of PlainObj ps \<Rightarrow> ps | ErrorObj name msg ps \<Rightarrow> ps)"

text \<open>
  What a template literal \<^verbatim>\<open>`${v}`\<close> and \<^verbatim>\<open>new Error(v)\<close> make of a value. An object is
  converted by its \<^verbatim>\<open>toString\<close> method: the inherited one, which gives
  \<^verbatim>\<open>[object Object]\<close> for a plain object and name and message for an \<^verbatim>\<open>Error\<close>. When
  the object has an own property \<^verbatim>\<open>toString\<close>, that value is not callable, the inherited
  \<^verbatim>\<open>valueOf\<close> returns the object itself, and the conversion raises. An array joins the
  strings of its elements, with nothing for \<^verbatim>\<open>null\<close> and \<^verbatim>\<open>undefined\<close>.
\<close>

fun to_string :: "heap \<Rightarrow> jsval \<Rightarrow> exn + string" where
  "to_string h (JArr xs) =
     (case collect (map (\<lambda>x. if x = JUndefined \<or> x = JNull then Inr [] else to_string h x) xs) of
        Inl e \<Rightarrow> Inl e
      | Inr ss \<Rightarrow> Inr (join_comma ss))"
| "to_string h (JRef a) =
     (if map_of (own_properties (deref h a)) ''toString'' \<noteq> None then
        Inl (TypeError ''Cannot convert object to primitive value'')
      else
        (case deref h a of
           PlainObj ps \<Rightarrow> Inr ''[object Object]''
         | ErrorObj name msg ps \<Rightarrow> Inr (error_toString name msg)))"
| "to_string h v = Inr (prim_string v)"

subsection \<open>Properties\<close>

fun indexed :: "nat \<Rightarrow> jsval list \<Rightarrow> props" where
  "indexed i [] = []"
| "indexed i (x # xs) = (dec_nat i, x) # indexed (Suc i) xs"

text \<open>The own enumerable properties of a value, in order: what \<^verbatim>\<open>{ ...v }\<close> copies.
  The message of an \<^verbatim>\<open>Error\<close> is an own property that is not enumerable.\<close>

fun own_props :: "heap \<Rightarrow> jsval \<Rightarrow> props" where
  "own_props h (JStr s) = indexed 0 (map (\<lambda>c. JStr [c]) s)"
| "own_props h (JArr xs) = indexed 0 xs"
| "own_props h (JRef a) = own_properties (deref h a)"
| "own_props h v = []"

definition lookup_prop :: "props \<Rightarrow> string \<Rightarrow> jsval" where
  "lookup_prop ps k = (case map_of ps k of None \<Rightarrow> JUndefined | Some v \<Rightarrow> v)"

definition read_TypeError :: "heap \<Rightarrow> jsval \<Rightarrow> string \<Rightarrow> exn" where
  "read_TypeError h v k =
     TypeError (''Cannot read property '' @ [CHR 0x27] @ k @ [CHR 0x27] @ '' of '' @ prim_string v)"

text \<open>\<^verbatim>\<open>v.k\<close> and \<^verbatim>\<open>v[k]\<close>, for the names the client reads (none of them is inherited
  from \<^verbatim>\<open>Object.prototype\<close>).\<close>

fun get_prop :: "heap \<Rightarrow> jsval \<Rightarrow> string \<Rightarrow> exn + jsval" where
  "get_prop h JUndefined k = Inl (read_TypeError h JUndefined k)"
| "get_prop h JNull k = Inl (read_TypeError h JNull k)"
| "get_prop h (JStr s) k =
     Inr (if k = ''length'' then JNum (of_nat (length s)) else lookup_prop (own_props h (JStr s)) k)"
| "get_prop h (JArr xs) k =
     Inr (if k = ''length'' then JNum (of_nat (length xs)) else lookup_prop (own_props h (JArr xs)) k)"
| "get_prop h (JRef a) k =
     Inr (case deref h a of
            PlainObj ps \<Rightarrow> lookup_prop ps k
          | ErrorObj name msg ps \<Rightarrow>
              (if k = ''message'' then JStr msg
               else if k = ''name'' then JStr name
               else lookup_prop ps k))"
| "get_prop h v k = Inr JUndefined"

fun get_path :: "heap \<Rightarrow> jsval \<Rightarrow> string list \<Rightarrow> exn + jsval" where
  "get_path h v [] = Inr v"
| "get_path h v (k # ks) =
     (case get_prop h v k of Inl e \<Rightarrow> Inl e | Inr x \<Rightarrow> get_path h x ks)"

text \<open>\<^verbatim>\<open>a && b\<close>: the left operand when it is falsy, the right one otherwise; the right
  operand is not looked at (and cannot raise) when the left one is falsy.\<close>

definition js_and :: "exn + jsval \<Rightarrow> exn + jsval \<Rightarrow> exn + jsval" where
  "js_and a b = (case a of Inl e \<Rightarrow> Inl e | Inr v \<Rightarrow> if truthy v then b else Inr v)"

text \<open>
  \<^verbatim>\<open>obj[k] = v\<close> on a plain object or an \<^verbatim>\<open>Error\<close>. A property that exists is replaced
  where it is. A new property is listed last, unless its key is an array index (a decimal
  numeral below \<open>2 ^ 32 - 1\<close>, without leading zeros): the runtime lists those first, in
  ascending order. The key \<^verbatim>\<open>__proto__\<close> names the prototype and adds no property (the
  prototype it may set is not modelled; nothing reads through it).
\<close>

definition array_index :: "string \<Rightarrow> int option" where
  "array_index k =
     (if k \<noteq> [] \<and> list_all (\<lambda>ch. ch \<in> set ''0123456789'') k \<and> (hd k \<noteq> CHR ''0'' \<or> k = ''0'') then
        (let n = foldl (\<lambda>acc ch. 10 * acc + (of_char ch - 48)) 0 k
         in if n < 4294967295 then Some n else None)
      else None)"

fun replace_prop :: "string \<Rightarrow> jsval \<Rightarrow> props \<Rightarrow> props" where
  "replace_prop k v [] = []"
| "replace_prop k v (p # ps) = (if fst p = k then (k, v) # ps else p # replace_prop k v ps)"

fun insert_prop :: "string \<Rightarrow> jsval \<Rightarrow> props \<Rightarrow> props" where
  "insert_prop k v [] = [(k, v)]"
| "insert_prop k v (p # ps) =
     (case array_index k of
        None \<Rightarrow> p # insert_prop k v ps
      | Some i \<Rightarrow>
          (case array_index (fst p) of
             None \<Rightarrow> (k, v) # p # ps
           | Some j \<Rightarrow> if j < i then p # insert_prop k v ps else (k, v) # p # ps))"

definition update_prop :: "string \<Rightarrow> jsval \<Rightarrow> props \<Rightarrow> props" where
  "update_prop k v ps =
     (if k = ''__proto__'' then ps
      else if map_of ps k \<noteq> None then replace_prop k v ps
      else insert_prop k v ps)"

fun write_obj :: "string \<Rightarrow> jsval \<Rightarrow> jsobj \<Rightarrow> jsobj" where
  "write_obj k v (PlainObj ps) = PlainObj (update_prop k v ps)"
| "write_obj k v (ErrorObj name msg ps) = ErrorObj name msg (update_prop k v ps)"

fun type_name :: "jsval \<Rightarrow> string" where
  "type_name (JBool b) = ''boolean''"
| "type_name (JNum n) = ''number''"
| "type_name (JStr s) = ''string''"
| "type_name v = ''object''"

definition write_TypeError :: "heap \<Rightarrow> jsval \<Rightarrow> string \<Rightarrow> exn" where
  "write_TypeError h v k =
     (if v = JUndefined \<or> v = JNull then
        TypeError (''Cannot set property '' @ [CHR 0x27] @ k @ [CHR 0x27] @ '' of '' @ prim_string v)
      else
        TypeError (''Cannot create property '' @ [CHR 0x27] @ k @ [CHR 0x27] @ '' on '' @ type_name v
                   @ '' '' @ [CHR 0x27] @ prim_string v @ [CHR 0x27]))"

definition put_prop :: "heap \<Rightarrow> addr \<Rightarrow> string \<Rightarrow> jsval \<Rightarrow> heap" where
  "put_prop h a k v = h[a := write_obj k v (deref h a)]"

text \<open>\<^verbatim>\<open>w[k] = v\<close> at type \<^verbatim>\<open>any\<close>. Arrays are values without named properties: a
  write to an array is accepted and not recorded. (The client writes to a value of type
  \<^verbatim>\<open>any\<close> only in the fixup, where what it writes to an array is \<^verbatim>\<open>undefined\<close>, read
  from a vendor field that an array does not have; a property holding \<^verbatim>\<open>undefined\<close>
  reads as an absent one.)\<close>

fun set_prop :: "heap \<Rightarrow> jsval \<Rightarrow> string \<Rightarrow> jsval \<Rightarrow> exn + heap" where
  "set_prop h (JRef a) k v = Inr (put_prop h a k v)"
| "set_prop h (JArr xs) k v = Inr h"
| "set_prop h w k v = Inl (write_TypeError h w k)"

section \<open>The client\<close>

record SimpleSearchClient =
  serviceName :: string
  apikey :: string
  cloudSuffix :: "string option"
  userAgent :: string

definition API_VERSION :: string where
  "API_VERSION = ''2019-05-06''"

subsection \<open>Requests, responses and the transport\<close>

datatype http_method = GET | POST | PUT

record AxiosRequestConfig =
  headers :: "(string \<times> string) list"

record request =
  verb :: http_method
  url :: string
  payload :: "jsval option"
  config :: AxiosRequestConfig

record 'd AxiosResponse =
  data :: 'd
  response_headers :: "(string \<times> string) list"

text \<open>
  Axios is the environment. Given the request and the store (it reads the body), it either
  rejects with a failure value or resolves with a response, and the objects it built for
  either are new in the store. A client call leaves a world behind: the store, and the
  requests sent so far.
\<close>

type_synonym 'd transport = "request \<Rightarrow> heap \<Rightarrow> (jsval + 'd AxiosResponse) \<times> jsobj list"

record world =
  objs :: heap
  sent :: "request list"

definition Axios_request ::
    "'d transport \<Rightarrow> request \<Rightarrow> world \<Rightarrow> (jsval + 'd AxiosResponse) \<times> world" where
  "Axios_request t req w =
     (case t req (objs w) of
        (outcome, new) \<Rightarrow> (outcome, \<lparr>objs = objs w @ new, sent = sent w @ [req]\<rparr>))"

definition Axios_get ::
    "'d transport \<Rightarrow> string \<Rightarrow> AxiosRequestConfig \<Rightarrow> world \<Rightarrow> (jsval + 'd AxiosResponse) \<times> world" where
  "Axios_get t u cfg w = Axios_request t \<lparr>verb = GET, url = u, payload = None, config = cfg\<rparr> w"

definition Axios_post ::
    "'d transport \<Rightarrow> string \<Rightarrow> jsval \<Rightarrow> AxiosRequestConfig \<Rightarrow> world
      \<Rightarrow> (jsval + 'd AxiosResponse) \<times> world" where
  "Axios_post t u body cfg w =
     Axios_request t \<lparr>verb = POST, url = u, payload = Some body, config = cfg\<rparr> w"

definition Axios_put ::
    "'d transport \<Rightarrow> string \<Rightarrow> jsval \<Rightarrow> AxiosRequestConfig \<Rightarrow> world
      \<Rightarrow> (jsval + 'd AxiosResponse) \<times> world" where
  "Axios_put t u body cfg w =
     Axios_request t \<lparr>verb = PUT, url = u, payload = Some body, config = cfg\<rparr> w"

subsection \<open>URL Builder and request configuration\<close>

text \<open>\<^verbatim>\<open>this.cloudSuffix || "search.windows.net"\<close>: an absent and an empty suffix are
  both falsy. \<^verbatim>\<open>options\<close> defaults to the empty string.\<close>

definition makeUrl :: "SimpleSearchClient \<Rightarrow> string \<Rightarrow> string \<Rightarrow> string" where
  "makeUrl c path options =
     (let suffix = (case cloudSuffix c of
                      Some s \<Rightarrow> if s \<noteq> [] then s else ''search.windows.net''
                    | None \<Rightarrow> ''search.windows.net'');
          options = (if options \<noteq> [] \<and> hd options \<noteq> CHR ''&'' then ''&'' @ options
                     else options)
      in ''https://'' @ serviceName c @ ''.'' @ suffix @ ''/'' @ path
           @ ''?api-version='' @ API_VERSION @ options)"

definition makeRequestConfig :: "SimpleSearchClient \<Rightarrow> AxiosRequestConfig" where
  "makeRequestConfig c = \<lparr>headers = [(''api-key'', apikey c), (''User-Agent'', userAgent c)]\<rparr>"

subsection \<open>Error Normalizer\<close>

definition extractErrorMessage :: "heap \<Rightarrow> jsval \<Rightarrow> exn + jsval" where
  "extractErrorMessage h error =
     (case js_and (js_and (js_and (get_path h error [''response''])
                                  (get_path h error [''response'', ''data'']))
                          (get_path h error [''response'', ''data'', ''error'']))
                  (get_path h error [''response'', ''data'', ''error'', ''message'']) of
        Inl e \<Rightarrow> Inl e
      | Inr cond \<Rightarrow>
          if truthy cond then get_path h error [''response'', ''data'', ''error'', ''message'']
          else (case get_prop h error ''message'' of
                  Inl e \<Rightarrow> Inl e
                | Inr m \<Rightarrow>
                    (case to_string h (if truthy m then m else error) of
                       Inl e \<Rightarrow> Inl e
                     | Inr s \<Rightarrow> Inr (JStr (''Error: '' @ s)))))"

text \<open>\<^verbatim>\<open>throw new Error(v)\<close>: the message is the argument as a string, unless it is
  \<^verbatim>\<open>undefined\<close>; when the conversion raises, that is what is thrown. A caught error is
  an object again.\<close>

definition throw_new_Error :: "heap \<Rightarrow> jsval \<Rightarrow> exn" where
  "throw_new_Error h v =
     (if v = JUndefined then Error []
      else (case to_string h v of Inl e \<Rightarrow> e | Inr s \<Rightarrow> Error s))"

fun caught :: "heap \<Rightarrow> exn \<Rightarrow> addr \<times> heap" where
  "caught h (Error m) = alloc h (ErrorObj ''Error'' m [])"
| "caught h (TypeError m) = alloc h (ErrorObj ''TypeError'' m [])"
| "caught h (URIError m) = alloc h (ErrorObj ''URIError'' m [])"

subsection \<open>Transport\<close>

definition httpGetUrl ::
    "'d transport \<Rightarrow> SimpleSearchClient \<Rightarrow> string \<Rightarrow> world \<Rightarrow> (exn + 'd AxiosResponse) \<times> world" where
  "httpGetUrl t c u w =
     (case Axios_get t u (makeRequestConfig c) w of
        (Inr r, w') \<Rightarrow> (Inr r, w')
      | (Inl error, w') \<Rightarrow>
          (case extractErrorMessage (objs w') error of
             Inl e \<Rightarrow> (Inl e, w')
           | Inr m \<Rightarrow> (Inl (throw_new_Error (objs w') m), w')))"

definition httpGet ::
    "'d transport \<Rightarrow> SimpleSearchClient \<Rightarrow> string \<Rightarrow> string \<Rightarrow> world
      \<Rightarrow> (exn + 'd AxiosResponse) \<times> world" where
  "httpGet t c path queryString w = httpGetUrl t c (makeUrl c path queryString) w"

definition httpPost ::
    "'d transport \<Rightarrow> SimpleSearchClient \<Rightarrow> string \<Rightarrow> jsval \<Rightarrow> world
      \<Rightarrow> (exn + 'd AxiosResponse) \<times> world" where
  "httpPost t c path body w =
     (case Axios_post t (makeUrl c path []) body (makeRequestConfig c) w of
        (Inr r, w') \<Rightarrow> (Inr r, w')
      | (Inl error, w') \<Rightarrow>
          (case extractErrorMessage (objs w') error of
             Inl e \<Rightarrow> (Inl e, w')
           | Inr m \<Rightarrow> (Inl (throw_new_Error (objs w') m), w')))"

text \<open>\<^verbatim>\<open>if (etag)\<close>: an absent and an empty token are both falsy.\<close>

definition httpPut ::
    "'d transport \<Rightarrow> SimpleSearchClient \<Rightarrow> string \<Rightarrow> jsval \<Rightarrow> string option \<Rightarrow> world
      \<Rightarrow> (exn + 'd AxiosResponse) \<times> world" where
  "httpPut t c path body etag w =
     (let cfg = makeRequestConfig c;
          cfg = (case etag of
                   Some e \<Rightarrow> if e \<noteq> [] then cfg\<lparr>headers := headers cfg @ [(''if-match'', e)]\<rparr>
                             else cfg
                 | None \<Rightarrow> cfg)
      in case Axios_put t (makeUrl c path []) body cfg w of
           (Inr r, w') \<Rightarrow> (Inr r, w')
         | (Inl error, w') \<Rightarrow>
             (case extractErrorMessage (objs w') error of
                Inl e \<Rightarrow> (Inl e, w')
              | Inr m \<Rightarrow> (Inl (throw_new_Error (objs w') m), w')))"

subsection \<open>Resource Accessors\<close>

definition updateResource ::
    "'d transport \<Rightarrow> SimpleSearchClient \<Rightarrow> string \<Rightarrow> string \<Rightarrow> jsval \<Rightarrow> string option \<Rightarrow> world
      \<Rightarrow> (exn + 'd AxiosResponse) \<times> world" where
  "updateResource t c resource name content etag w =
     httpPut t c (resource @ ''/'' @ name) content etag w"

subsection \<open>Query Engine\<close>

definition fixupQueryResponse :: "heap \<Rightarrow> jsval \<Rightarrow> exn + heap" where
  "fixupQueryResponse h response =
     (case get_prop h response ''@odata.nextLink'' of
        Inl e \<Rightarrow> Inl e
      | Inr link \<Rightarrow>
          (case set_prop h response ''nextLink'' link of
             Inl e \<Rightarrow> Inl e
           | Inr h1 \<Rightarrow>
               (case get_prop h1 response ''@search.nextPageParameters'' of
                  Inl e \<Rightarrow> Inl e
                | Inr params \<Rightarrow> set_prop h1 response ''nextPageParameteres'' params)))"

definition query ::
    "jsval transport \<Rightarrow> SimpleSearchClient \<Rightarrow> string \<Rightarrow> string \<Rightarrow> bool \<Rightarrow> world
      \<Rightarrow> (exn + jsval) \<times> world" where
  "query t c indexName q raw w =
     (case httpGet t c (''indexes/'' @ indexName @ ''/docs'') q w of
        (Inl e, w') \<Rightarrow> (Inl e, w')
      | (Inr r, w') \<Rightarrow>
          if \<not> raw then
            (case fixupQueryResponse (objs w') (data r) of
               Inl e \<Rightarrow> (Inl e, w')
             | Inr h \<Rightarrow> (Inr (data r), w'\<lparr>objs := h\<rparr>))
          else (Inr (data r), w'))"

definition queryNext ::
    "jsval transport \<Rightarrow> SimpleSearchClient \<Rightarrow> string \<Rightarrow> world \<Rightarrow> (exn + jsval) \<times> world" where
  "queryNext t c nextLink w =
     (case httpGetUrl t c nextLink w of
        (Inl e, w') \<Rightarrow> (Inl e, w')
      | (Inr r, w') \<Rightarrow>
          (case fixupQueryResponse (objs w') (data r) of
             Inl e \<Rightarrow> (Inl e, w')
           | Inr h \<Rightarrow> (Inr (data r), w'\<lparr>objs := h\<rparr>)))"

subsection \<open>Document lookup\<close>

text \<open>
  \<^verbatim>\<open>encodeURIComponent\<close>, on the code units of its argument. An unreserved character
  stays. Any other code unit is read as a code point, together with the next code unit when
  the two are a surrogate pair, and written as the escaped bytes of its UTF-8 encoding; a
  surrogate without its partner raises \<^verbatim>\<open>URIError\<close>.
\<close>

definition unreserved :: "char \<Rightarrow> bool" where
  "unreserved ch \<longleftrightarrow>
     ch \<in> set (''ABCDEFGHIJKLMNOPQRSTUVWXYZabcdefghijklmnopqrstuvwxyz0123456789-_.!~*()''
               @ [CHR 0x27])"

definition percent :: "int \<Rightarrow> string" where
  "percent b =
     [CHR ''%'', ''0123456789ABCDEF'' ! nat (b div 16), ''0123456789ABCDEF'' ! nat (b mod 16)]"

definition utf8 :: "int \<Rightarrow> int list" where
  "utf8 cp =
     (if cp < 128 then [cp]
      else if cp < 2048 then [192 + cp div 64, 128 + cp mod 64]
      else if cp < 65536 then [224 + cp div 4096, 128 + cp div 64 mod 64, 128 + cp mod 64]
      else [240 + cp div 262144, 128 + cp div 4096 mod 64, 128 + cp div 64 mod 64,
            128 + cp mod 64])"

definition escape :: "int \<Rightarrow> string" where
  "escape cp = concat (map percent (utf8 cp))"

definition leading :: "int \<Rightarrow> bool" where
  "leading u \<longleftrightarrow> 55296 \<le> u \<and> u \<le> 56319"

definition trailing :: "int \<Rightarrow> bool" where
  "trailing u \<longleftrightarrow> 56320 \<le> u \<and> u \<le> 57343"

definition followed_by :: "string \<Rightarrow> exn + string \<Rightarrow> exn + string" where
  "followed_by s r = (case r of Inl e \<Rightarrow> Inl e | Inr t \<Rightarrow> Inr (s @ t))"

fun Encode :: "int list \<Rightarrow> exn + string" where
  "Encode [] = Inr []"
| "Encode [u] =
     (if u < 128 \<and> unreserved (char_of u) then Inr [char_of u]
      else if leading u \<or> trailing u then Inl (URIError ''URI malformed'')
      else Inr (escape u))"
| "Encode (u # u' # us) =
     (if u < 128 \<and> unreserved (char_of u) then followed_by [char_of u] (Encode (u' # us))
      else if trailing u then Inl (URIError ''URI malformed'')
      else if leading u then
        (if trailing u' then
           followed_by (escape ((u - 55296) * 1024 + (u' - 56320) + 65536)) (Encode us)
         else Inl (URIError ''URI malformed''))
      else followed_by (escape u) (Encode (u' # us)))"

definition encodeURIComponent :: "16 word list \<Rightarrow> exn + string" where
  "encodeURIComponent s = Encode (map uint s)"

definition lookup ::
    "jsval transport \<Rightarrow> SimpleSearchClient \<Rightarrow> string \<Rightarrow> 16 word list \<Rightarrow> world
      \<Rightarrow> (exn + jsval) \<times> world" where
  "lookup t c indexName key w =
     (case encodeURIComponent key of
        Inl e \<Rightarrow> (Inl e, w)
      | Inr encodedKey \<Rightarrow>
          (case httpGet t c (''indexes/'' @ indexName @ ''/docs/'' @ encodedKey) [] w of
             (Inl e, w') \<Rightarrow> (Inl e, w')
           | (Inr r, w') \<Rightarrow> (Inr (data r), w')))"

subsection \<open>Batch Document Writer\<close>

record 't CollectionResponse =
  "value" :: "'t list"

record BatchResponseEntry =
  key :: jsval
  status :: bool
  errorMessage :: string
  statusCode :: int

definition indexBatch ::
    "BatchResponseEntry CollectionResponse transport \<Rightarrow> SimpleSearchClient \<Rightarrow> string \<Rightarrow> jsval
      \<Rightarrow> world \<Rightarrow> (exn + unit) \<times> world" where
  "indexBatch t c indexName batch w =
     (case httpPost t c (''indexes/'' @ indexName @ ''/docs/index'') batch w of
        (Inl thrown, w') \<Rightarrow>
          (case caught (objs w') thrown of
             (error, h) \<Rightarrow>
               (case extractErrorMessage h (JRef error) of
                  Inl e \<Rightarrow> (Inl e, w'\<lparr>objs := h\<rparr>)
                | Inr m \<Rightarrow>
                    (case to_string h m of
                       Inl e \<Rightarrow> (Inl e, w'\<lparr>objs := h\<rparr>)
                     | Inr s \<Rightarrow>
                         (Inl (Error (''Failed to process document: '' @ s)), w'\<lparr>objs := h\<rparr>))))
      | (Inr r, w') \<Rightarrow>
          (let batchResponse = data r
           in if length (value batchResponse) \<noteq> 1 then
                (Inl (Error ''Unexpected response from service while attempting to process document''),
                 w')
              else if \<not> status (value batchResponse ! 0) then
                (Inl (Error (''Failed to process document: ''
                             @ errorMessage (value batchResponse ! 0))), w')
              else (Inr (), w')))"

definition uploadDocument ::
    "BatchResponseEntry CollectionResponse transport \<Rightarrow> SimpleSearchClient \<Rightarrow> string \<Rightarrow> jsval
      \<Rightarrow> bool \<Rightarrow> world \<Rightarrow> (exn + unit) \<times> world" where
  "uploadDocument t c indexName doc createNew w =
     (case alloc (objs w) (PlainObj (own_props (objs w) doc)) of
        (shallowCopy, h1) \<Rightarrow>
          (let h2 = put_prop h1 shallowCopy ''@search.action''
                      (JStr (if createNew then ''mergeOrUpload'' else ''merge''))
           in case alloc h2 (PlainObj [(''value'', JArr [JRef shallowCopy])]) of
                (batch, h3) \<Rightarrow> indexBatch t c indexName (JRef batch) (w\<lparr>objs := h3\<rparr>)))"

definition deleteDocument ::
    "BatchResponseEntry CollectionResponse transport \<Rightarrow> SimpleSearchClient \<Rightarrow> string \<Rightarrow> string
      \<Rightarrow> jsval \<Rightarrow> world \<Rightarrow> (exn + unit) \<times> world" where
  "deleteDocument t c indexName keyName k w =
     (case alloc (objs w) (PlainObj []) of
        (deletion, h1) \<Rightarrow>
          (let h2 = put_prop h1 deletion ''@search.action'' (JStr ''delete'');
               h3 = put_prop h2 deletion keyName k
           in case alloc h3 (PlainObj [(''value'', JArr [JRef deletion])]) of
                (batch, h4) \<Rightarrow> indexBatch t c indexName (JRef batch) (w\<lparr>objs := h4\<rparr>)))"

section \<open>Notions used to state the properties\<close>

text \<open>The requests the client sends.\<close>

definition get_request :: "SimpleSearchClient \<Rightarrow> string \<Rightarrow> request" where
  "get_request c u = \<lparr>verb = GET, url = u, payload = None, config = makeRequestConfig c\<rparr>"

definition batch_request :: "SimpleSearchClient \<Rightarrow> string \<Rightarrow> jsval \<Rightarrow> request" where
  "batch_request c indexName batch =
     \<lparr>verb = POST, url = makeUrl c (''indexes/'' @ indexName @ ''/docs/index'') [],
      payload = Some batch, config = makeRequestConfig c\<rparr>"

definition protocol_violation :: exn where
  "protocol_violation = Error ''Unexpected response from service while attempting to process document''"

text \<open>The suffix in effect, and the number of places of a URL where a given text starts.\<close>

definition effective_suffix :: "SimpleSearchClient \<Rightarrow> string" where
  "effective_suffix c =
     (case cloudSuffix c of
        None \<Rightarrow> ''search.windows.net''
      | Some s \<Rightarrow> if s = [] then ''search.windows.net'' else s)"

fun occurrences :: "string \<Rightarrow> string \<Rightarrow> nat" where
  "occurrences p [] = 0"
| "occurrences p (x # xs) = (if prefix p (x # xs) then 1 else 0) + occurrences p xs"

text \<open>The message nested in the body of a failure, \<^verbatim>\<open>error.response.data.error.message\<close>,
  when it can be read and is truthy; the failure's own message, when it is truthy.\<close>

definition nested_message :: "heap \<Rightarrow> jsval \<Rightarrow> jsval option" where
  "nested_message h error =
     (case get_path h error [''response'', ''data'', ''error'', ''message''] of
        Inr m \<Rightarrow> if truthy m then Some m else None
      | Inl e \<Rightarrow> None)"

definition own_message :: "heap \<Rightarrow> jsval \<Rightarrow> jsval option" where
  "own_message h error =
     (case get_prop h error ''message'' of
        Inr m \<Rightarrow> if truthy m then Some m else None
      | Inl e \<Rightarrow> None)"

text \<open>The values that have a string: every primitive, an object without an own property
  \<^verbatim>\<open>toString\<close>, an array of such values.\<close>

fun convertible :: "heap \<Rightarrow> jsval \<Rightarrow> bool" where
  "convertible h (JArr xs) = (\<forall>x \<in> set xs. convertible h x)"
| "convertible h (JRef a) = (''toString'' \<notin> fst ` set (own_properties (deref h a)))"
| "convertible h v = True"

text \<open>The value that the fallback of the normalizer turns into a string.\<close>

definition fallback_subject :: "heap \<Rightarrow> jsval \<Rightarrow> jsval" where
  "fallback_subject h error = (case own_message h error of Some m \<Rightarrow> m | None \<Rightarrow> error)"

text \<open>Sample values: a client of the public cloud, failures as Axios and the runtime
  produce them, a caller's document, and services that answer a batch submission.\<close>

definition sample_client :: SimpleSearchClient where
  "sample_client =
     \<lparr>serviceName = ''svc'', apikey = ''secret'', cloudSuffix = None, userAgent = ''ext/1.0''\<rparr>"

definition sample_failures :: heap where
  "sample_failures =
     [PlainObj [(''message'', JStr ''boom'')],
      PlainObj [(''error'', JRef 0)],
      PlainObj [(''data'', JRef 1)],
      ErrorObj ''Error'' ''Request failed with status code 400'' [(''response'', JRef 2)],
      ErrorObj ''Error'' ''net down'' [],
      PlainObj [(''message'', JStr [])],
      PlainObj [(''error'', JRef 5)],
      PlainObj [(''data'', JRef 6)],
      ErrorObj ''Error'' ''Request failed with status code 400'' [(''response'', JRef 7)],
      PlainObj [(''message'', JBool True)],
      PlainObj [(''error'', JRef 9)],
      PlainObj [(''data'', JRef 10)],
      ErrorObj ''Error'' ''Request failed with status code 500'' [(''response'', JRef 11)],
      PlainObj [(''toString'', JNum 1)],
      PlainObj [(''message'', JRef 13)]]"

definition sample_world :: world where
  "sample_world = \<lparr>objs = [PlainObj [(''id'', JStr ''1''), (''title'', JStr ''x'')]], sent = []\<rparr>"

definition reply_with ::
    "BatchResponseEntry list \<Rightarrow> BatchResponseEntry CollectionResponse transport" where
  "reply_with entries = (\<lambda>req h. (Inr \<lparr>data = \<lparr>value = entries\<rparr>, response_headers = []\<rparr>, []))"

definition rejected_entry :: BatchResponseEntry where
  "rejected_entry = \<lparr>key = JStr ''1'', status = False, errorMessage = ''bad doc'', statusCode = 400\<rparr>"

definition accepted_entry :: BatchResponseEntry where
  "accepted_entry = \<lparr>key = JStr ''1'', status = True, errorMessage = [], statusCode = 200\<rparr>"


text \<open>
  A response body that has properties: an object of the store, or an array; the other
  bodies are the primitive values. The effect of the fixup on a body with properties: the two normalized fields hold what the vendor fields
  held, every other property of the body reads as before, and so does every other object.
\<close>

definition has_properties :: "heap \<Rightarrow> jsval \<Rightarrow> bool" where
  "has_properties h body =
     (case body of JRef a \<Rightarrow> a < length h | JArr xs \<Rightarrow> True | _ \<Rightarrow> False)"

definition primitive :: "jsval \<Rightarrow> bool" where
  "primitive body = (case body of JRef a \<Rightarrow> False | JArr xs \<Rightarrow> False | _ \<Rightarrow> True)"

definition fixed_up :: "heap \<Rightarrow> heap \<Rightarrow> jsval \<Rightarrow> bool" where
  "fixed_up h h' body \<longleftrightarrow>
     get_prop h' body ''nextLink'' = get_prop h body ''@odata.nextLink''
   \<and> get_prop h' body ''nextPageParameteres'' = get_prop h body ''@search.nextPageParameters''
   \<and> (\<forall>k. k \<noteq> ''nextLink'' \<and> k \<noteq> ''nextPageParameteres''
          \<longrightarrow> get_prop h' body k = get_prop h body k)
   \<and> (\<forall>b. body \<noteq> JRef b \<longrightarrow> deref h' b = deref h b)"

text \<open>The request of \<open>updateResource\<close>.\<close>

definition update_request ::
    "SimpleSearchClient \<Rightarrow> string \<Rightarrow> string \<Rightarrow> jsval \<Rightarrow> string option \<Rightarrow> request" where
  "update_request c resource name content etag =
     \<lparr>verb = PUT, url = makeUrl c (resource @ ''/'' @ name) [], payload = Some content,
      config = \<lparr>headers = [(''api-key'', apikey c), (''User-Agent'', userAgent c)]
                 @ (case etag of
                      Some e \<Rightarrow> if e = [] then [] else [(''if-match'', e)]
                    | None \<Rightarrow> [])\<rparr>\<rparr>"

text \<open>
  Keys and their escaped form. A key is well formed when every surrogate code unit has
  its partner: a leading one is followed by a trailing one, and a trailing one follows a
  leading one. The escaped form is read back by undoing the three steps: the escapes
  give bytes, the bytes give code points (UTF-8), the code points give code units
  (UTF-16).
\<close>

fun well_formed :: "int list \<Rightarrow> bool" where
  "well_formed [] = True"
| "well_formed [u] = (\<not> leading u \<and> \<not> trailing u)"
| "well_formed (u # u' # us) =
     (if leading u then trailing u' \<and> well_formed us
      else \<not> trailing u \<and> well_formed (u' # us))"

definition hex_value :: "char \<Rightarrow> int" where
  "hex_value ch = (if of_char ch < (58 :: int) then of_char ch - 48 else of_char ch - 55)"

fun unescape :: "string \<Rightarrow> int list" where
  "unescape [] = []"
| "unescape (ch # a # b # s) =
     (if ch = CHR ''%'' then (16 * hex_value a + hex_value b) # unescape s
      else of_char ch # unescape (a # b # s))"
| "unescape (ch # s) = of_char ch # unescape s"

fun utf8_decode :: "int list \<Rightarrow> int list" where
  "utf8_decode (b # b1 # b2 # b3 # bs) =
     (if b < 128 then b # utf8_decode (b1 # b2 # b3 # bs)
      else if b < 224 then ((b - 192) * 64 + (b1 - 128)) # utf8_decode (b2 # b3 # bs)
      else if b < 240 then ((b - 224) * 4096 + (b1 - 128) * 64 + (b2 - 128)) # utf8_decode (b3 # bs)
      else ((b - 240) * 262144 + (b1 - 128) * 4096 + (b2 - 128) * 64 + (b3 - 128)) # utf8_decode bs)"
| "utf8_decode [b, b1, b2] =
     (if b < 128 then b # utf8_decode [b1, b2]
      else if b < 224 then ((b - 192) * 64 + (b1 - 128)) # utf8_decode [b2]
      else [(b - 224) * 4096 + (b1 - 128) * 64 + (b2 - 128)])"
| "utf8_decode [b, b1] =
     (if b < 128 then b # utf8_decode [b1] else [(b - 192) * 64 + (b1 - 128)])"
| "utf8_decode [b] = [b]"
| "utf8_decode [] = []"

definition utf16 :: "int \<Rightarrow> int list" where
  "utf16 cp =
     (if cp < 65536 then [cp]
      else [55296 + (cp - 65536) div 1024, 56320 + (cp - 65536) mod 1024])"

definition unescaped_key :: "string \<Rightarrow> int list" where
  "unescaped_key s = concat (map utf16 (utf8_decode (unescape s)))"

definition escape_chars :: "char set" where
  "escape_chars = set ''%0123456789ABCDEF''"

text \<open>A service that answers every request with one page of results, built as new objects:
  the body, and the parameters of the next page.\<close>

definition sample_page :: "heap \<Rightarrow> jsobj list" where
  "sample_page h =
     [PlainObj [(''value'', JArr []),
                (''@odata.nextLink'', JStr ''https://svc.search.windows.net/next''),
                (''@search.nextPageParameters'', JRef (Suc (length h)))],
      PlainObj [(''skip'', JNum 50)]]"

definition reply_page :: "jsval transport" where
  "reply_page = (\<lambda>req h. (Inr \<lparr>data = JRef (length h), response_headers = []\<rparr>, sample_page h))"

text \<open>A service that answers every request with a given body, and builds nothing.\<close>

definition reply_body :: "jsval \<Rightarrow> jsval transport" where
  "reply_body body = (\<lambda>req h. (Inr \<lparr>data = body, response_headers = []\<rparr>, []))"

text \<open>Keys: one of ASCII characters, one with a character from each length of escape,
  one that ends in half a surrogate pair.\<close>

definition sample_key :: "16 word list" where
  "sample_key = map of_char ''a/b?c&d#e''"

definition plain_key :: "16 word list" where
  "plain_key = map of_char ''hotel-42''"

definition wide_key :: "16 word list" where
  "wide_key = [0xE9, 0x20AC, 0xD83D, 0xDE00, 0x41]"

definition broken_key :: "16 word list" where
  "broken_key = [0x41, 0xD83D]"


section \<open>URL Builder\<close>

lemma makeUrl_eq:
  "makeUrl c path fragment =
     ''https://'' @ serviceName c @ ''.'' @ effective_suffix c @ ''/'' @ path
       @ ''?api-version=2019-05-06''
       @ (if fragment = [] then [] else if hd fragment = CHR ''&'' then fragment else ''&'' @ fragment)"
  by (simp add: makeUrl_def effective_suffix_def API_VERSION_def split: option.split)

text \<open>A character that the text does not contain cuts the count in two.\<close>

lemma occurrences_separator:
  assumes "sep \<notin> set p" and "p \<noteq> []"
  shows "occurrences p (xs @ sep # ys) = occurrences p xs + occurrences p ys"
proof (induction xs)
  case Nil
  from assms have "\<not> prefix p (sep # ys)"
    by (cases p) auto
  then show ?case by simp
next
  case (Cons x xs)
  have "prefix p (x # xs @ sep # ys) \<longleftrightarrow> prefix p (x # xs)"
  proof
    assume "prefix p (x # xs @ sep # ys)"
    then have "prefix p ((x # xs) @ sep # ys)" by simp
    then consider "prefix p (x # xs)" | us where "p = (x # xs) @ us" "prefix us (sep # ys)"
      unfolding prefix_append by blast
    then show "prefix p (x # xs)"
    proof cases
      case 1
      then show ?thesis .
    next
      case 2
      with assms(1) have "us = []" by (cases us) auto
      with 2 show ?thesis by simp
    qed
  next
    assume "prefix p (x # xs)"
    then have "prefix p ((x # xs) @ sep # ys)" by (rule prefix_prefix)
    then show "prefix p (x # xs @ sep # ys)" by simp
  qed
  with Cons.IH show ?case by simp
qed

lemma occurrences_version: "occurrences ''api-version='' ''api-version=2019-05-06'' = 1"
  by simp

lemma occurrences_https: "occurrences ''api-version='' ''https'' = 0"
  by simp

lemma occurrences_tail:
  "occurrences ''api-version=''
     (''api-version=2019-05-06''
        @ (if fragment = [] then [] else if hd fragment = CHR ''&'' then fragment else ''&'' @ fragment))
   = 1 + occurrences ''api-version='' fragment"
proof (cases fragment)
  case Nil
  then show ?thesis by simp
next
  case (Cons x rest)
  show ?thesis
  proof (cases "x = CHR ''&''")
    case True
    have "occurrences ''api-version='' (''api-version=2019-05-06'' @ CHR ''&'' # rest)
            = occurrences ''api-version='' ''api-version=2019-05-06''
              + occurrences ''api-version='' rest"
      by (rule occurrences_separator) simp_all
    moreover have "occurrences ''api-version='' ([] @ CHR ''&'' # rest)
            = occurrences ''api-version='' [] + occurrences ''api-version='' rest"
      by (rule occurrences_separator) simp_all
    ultimately show ?thesis
      using Cons True by (simp del: occurrences.simps(2) add: occurrences_version)
  next
    case False
    have "occurrences ''api-version='' (''api-version=2019-05-06'' @ CHR ''&'' # fragment)
            = occurrences ''api-version='' ''api-version=2019-05-06''
              + occurrences ''api-version='' fragment"
      by (rule occurrences_separator) simp_all
    then show ?thesis
      using Cons False by (simp del: occurrences.simps(2) add: occurrences_version)
  qed
qed

lemma occurrences_url:
  "occurrences ''api-version='' (''https://'' @ svc @ ''.'' @ suf @ ''/'' @ path @ ''?'' @ rest)
     = occurrences ''api-version='' svc + occurrences ''api-version='' suf
       + occurrences ''api-version='' path + occurrences ''api-version='' rest"
proof -
  let ?P = "''api-version=''"
  let ?a = "path @ CHR ''?'' # rest"
  let ?b = "suf @ CHR ''/'' # ?a"
  let ?c = "svc @ CHR ''.'' # ?b"
  let ?d = "[] @ CHR ''/'' # ?c"
  let ?e = "[] @ CHR ''/'' # ?d"
  have a: "occurrences ?P ?a = occurrences ?P path + occurrences ?P rest"
    by (rule occurrences_separator) simp_all
  have b: "occurrences ?P ?b = occurrences ?P suf + occurrences ?P ?a"
    by (rule occurrences_separator) simp_all
  have c: "occurrences ?P ?c = occurrences ?P svc + occurrences ?P ?b"
    by (rule occurrences_separator) simp_all
  have d: "occurrences ?P ?d = occurrences ?P [] + occurrences ?P ?c"
    by (rule occurrences_separator) simp_all
  have e: "occurrences ?P ?e = occurrences ?P [] + occurrences ?P ?d"
    by (rule occurrences_separator) simp_all
  have f: "occurrences ?P (''https'' @ CHR '':'' # ?e) = occurrences ?P ''https'' + occurrences ?P ?e"
    by (rule occurrences_separator) simp_all
  have "''https://'' @ svc @ ''.'' @ suf @ ''/'' @ path @ ''?'' @ rest = ''https'' @ CHR '':'' # ?e"
    by simp
  then show ?thesis
    using a b c d e f by (simp only: occurrences_https occurrences.simps(1) add_0)
qed

text \<open>
  C5, as the code has it. The built URL is
  \<^verbatim>\<open>https://{serviceName}.{suffix}/{path}?api-version=2019-05-06\<close> followed by the
  fragment, where the suffix is the caller's, or the default one when none or an empty one
  was given. An empty fragment adds nothing, a fragment that starts with \<^verbatim>\<open>&\<close> is added
  as it is, any other fragment is added after one \<^verbatim>\<open>&\<close>. The builder writes one
  \<^verbatim>\<open>api-version=\<close> itself and validates nothing: the URL holds one more for each that
  the service name, the suffix, the path or the fragment holds, hence exactly one when
  they hold none.
\<close>

theorem makeUrl_shape:
  "makeUrl c path fragment =
     ''https://'' @ serviceName c @ ''.'' @ effective_suffix c @ ''/'' @ path
       @ ''?api-version=2019-05-06''
       @ (if fragment = [] then [] else if hd fragment = CHR ''&'' then fragment else ''&'' @ fragment)
   \<and> occurrences ''api-version='' (makeUrl c path fragment) =
       1 + occurrences ''api-version='' (serviceName c)
         + occurrences ''api-version='' (effective_suffix c)
         + occurrences ''api-version='' path
         + occurrences ''api-version='' fragment"
proof -
  let ?opts = "if fragment = [] then [] else if hd fragment = CHR ''&'' then fragment
               else ''&'' @ fragment"
  have "makeUrl c path fragment =
     ''https://'' @ serviceName c @ ''.'' @ effective_suffix c @ ''/'' @ path @ ''?''
       @ (''api-version=2019-05-06'' @ ?opts)"
    unfolding makeUrl_eq by simp
  then have "occurrences ''api-version='' (makeUrl c path fragment) =
     occurrences ''api-version='' (serviceName c) + occurrences ''api-version='' (effective_suffix c)
       + occurrences ''api-version='' path
       + occurrences ''api-version='' (''api-version=2019-05-06'' @ ?opts)"
    by (simp only: occurrences_url)
  then show ?thesis
    by (simp only: occurrences_tail makeUrl_eq [symmetric]) simp
qed

theorem makeUrl_shape_witness:
  "makeUrl sample_client ''indexes'' [] = ''https://svc.search.windows.net/indexes?api-version=2019-05-06''
   \<and> makeUrl sample_client ''indexes'' ''&$top=1''
       = ''https://svc.search.windows.net/indexes?api-version=2019-05-06&$top=1''
   \<and> makeUrl (sample_client\<lparr>cloudSuffix := Some ''search.azure.us''\<rparr>) ''indexes'' ''$select=name''
       = ''https://svc.search.azure.us/indexes?api-version=2019-05-06&$select=name''
   \<and> occurrences ''api-version='' (makeUrl sample_client ''indexes'' ''$select=name'') = 1"
  using makeUrl_shape [of sample_client "''indexes''" "[]"]
    makeUrl_shape [of sample_client "''indexes''" "''&$top=1''"]
    makeUrl_shape [of "sample_client\<lparr>cloudSuffix := Some ''search.azure.us''\<rparr>" "''indexes''"
                      "''$select=name''"]
    makeUrl_shape [of sample_client "''indexes''" "''$select=name''"]
  by (simp add: sample_client_def effective_suffix_def)

text \<open>
  C5 as stated fails twice: a fragment that names \<^verbatim>\<open>api-version\<close> itself gives a URL
  with two such parameters, and a client built with the empty suffix gets the default
  suffix, not the one supplied.
\<close>

theorem makeUrl_counterexample:
  "makeUrl sample_client ''indexes'' ''api-version=1''
     = ''https://svc.search.windows.net/indexes?api-version=2019-05-06&api-version=1''
   \<and> occurrences ''api-version='' (makeUrl sample_client ''indexes'' ''api-version=1'') = 2
   \<and> makeUrl (sample_client\<lparr>cloudSuffix := Some []\<rparr>) ''indexes'' []
       = ''https://svc.search.windows.net/indexes?api-version=2019-05-06''
   \<and> makeUrl (sample_client\<lparr>cloudSuffix := Some []\<rparr>) ''indexes'' []
       \<noteq> ''https://svc.'' @ [] @ ''/indexes?api-version=2019-05-06''"
  by (simp add: makeUrl_def API_VERSION_def sample_client_def)

section \<open>Batch Document Writer: validation of the response\<close>

lemma httpPost_resolved:
  assumes "t (batch_request c indexName batch) (objs w) = (Inr r, new)"
  shows "httpPost t c (''indexes/'' @ indexName @ ''/docs/index'') batch w =
           (Inr r, \<lparr>objs = objs w @ new, sent = sent w @ [batch_request c indexName batch]\<rparr>)"
  using assms by (simp add: httpPost_def Axios_post_def Axios_request_def batch_request_def)

text \<open>The three outcomes of a submission that the service answered.\<close>

lemma indexBatch_resolved:
  assumes "t (batch_request c indexName batch) (objs w) = (Inr r, new)"
  shows "indexBatch t c indexName batch w =
           (if length (value (data r)) \<noteq> 1 then Inl protocol_violation
            else if \<not> status (value (data r) ! 0) then
              Inl (Error (''Failed to process document: '' @ errorMessage (value (data r) ! 0)))
            else Inr (),
            \<lparr>objs = objs w @ new, sent = sent w @ [batch_request c indexName batch]\<rparr>)"
  using httpPost_resolved [of t c indexName batch w r new] assms
  by (simp add: indexBatch_def protocol_violation_def Let_def)

text \<open>
  C1. The service answers every batch submitted to the index with an envelope that does
  not hold exactly one entry (none, or two or more). Then the shared submission path
  raises the protocol-violation error, and so do \<open>uploadDocument\<close> and \<open>deleteDocument\<close>,
  whatever the batch and the document are. The result is neither success nor the
  item-rejected error of a first entry.
\<close>

theorem batch_wrong_entry_count:
  assumes "\<forall>body h. \<exists>r new. t (batch_request c indexName body) h = (Inr r, new)
                      \<and> length (value (data r)) \<noteq> 1"
  shows "fst (indexBatch t c indexName batch w) = Inl protocol_violation
       \<and> fst (uploadDocument t c indexName doc createNew w) = Inl protocol_violation
       \<and> fst (deleteDocument t c indexName keyName k w) = Inl protocol_violation"
proof -
  have ib: "fst (indexBatch t c indexName b w') = Inl protocol_violation" for b w'
  proof -
    obtain r new where "t (batch_request c indexName b) (objs w') = (Inr r, new)"
      and "length (value (data r)) \<noteq> 1"
      using assms by blast
    then show ?thesis by (simp add: indexBatch_resolved)
  qed
  show ?thesis
    by (simp add: ib uploadDocument_def deleteDocument_def alloc_def Let_def)
qed

theorem batch_wrong_entry_count_witness:
  "fst (indexBatch (reply_with []) sample_client ''hotels'' (JRef 0) sample_world)
     = Inl (Error ''Unexpected response from service while attempting to process document'')
   \<and> fst (uploadDocument (reply_with [rejected_entry, accepted_entry]) sample_client ''hotels''
            (JRef 0) True sample_world)
     = Inl (Error ''Unexpected response from service while attempting to process document'')
   \<and> fst (deleteDocument (reply_with []) sample_client ''hotels'' ''id'' (JStr ''1'') sample_world)
     = Inl (Error ''Unexpected response from service while attempting to process document'')"
proof -
  have none: "\<forall>body h. \<exists>r new.
                reply_with [] (batch_request sample_client ''hotels'' body) h = (Inr r, new)
              \<and> length (value (data r)) \<noteq> 1"
    by (simp add: reply_with_def)
  have two: "\<forall>body h. \<exists>r new.
               reply_with [rejected_entry, accepted_entry] (batch_request sample_client ''hotels'' body) h
                 = (Inr r, new)
             \<and> length (value (data r)) \<noteq> 1"
    by (simp add: reply_with_def)
  show ?thesis
    using batch_wrong_entry_count [OF none, of "JRef 0" sample_world "JRef 0" True "''id''"
                                     "JStr ''1''"]
      batch_wrong_entry_count [OF two, of "JRef 0" sample_world "JRef 0" True "''id''"
                                 "JStr ''1''"]
    by (simp add: protocol_violation_def)
qed

text \<open>
  C2. The service answered with exactly one entry, and its status is false: the error
  raised has the message \<^verbatim>\<open>Failed to process document: \<close> (the fixed prefix and a blank)
  followed by the entry's \<open>errorMessage\<close>, unchanged.
\<close>

theorem indexBatch_item_rejected:
  assumes "t (batch_request c indexName batch) (objs w) = (Inr r, new)"
      and "value (data r) = [entry]"
      and "\<not> status entry"
  shows "fst (indexBatch t c indexName batch w) =
           Inl (Error (''Failed to process document: '' @ errorMessage entry))
       \<and> prefix ''Failed to process document:'' (''Failed to process document: '' @ errorMessage entry)
       \<and> suffix (errorMessage entry) (''Failed to process document: '' @ errorMessage entry)"
  using assms by (simp add: indexBatch_resolved suffix_def)

theorem indexBatch_item_rejected_witness:
  "reply_with [rejected_entry] (batch_request sample_client ''hotels'' (JRef 0)) (objs sample_world)
     = (Inr \<lparr>data = \<lparr>value = [rejected_entry]\<rparr>, response_headers = []\<rparr>, [])
   \<and> \<not> status rejected_entry
   \<and> fst (indexBatch (reply_with [rejected_entry]) sample_client ''hotels'' (JRef 0) sample_world)
       = Inl (Error ''Failed to process document: bad doc'')"
proof -
  have a: "reply_with [rejected_entry] (batch_request sample_client ''hotels'' (JRef 0))
             (objs sample_world)
           = (Inr \<lparr>data = \<lparr>value = [rejected_entry]\<rparr>, response_headers = []\<rparr>, [])"
    by (simp add: reply_with_def)
  have b: "value (data \<lparr>data = \<lparr>value = [rejected_entry]\<rparr>, response_headers = []\<rparr>) = [rejected_entry]"
    by simp
  have c: "\<not> status rejected_entry"
    by (simp add: rejected_entry_def)
  show ?thesis
    using indexBatch_item_rejected [of "reply_with [rejected_entry]" sample_client "''hotels''"
            "JRef 0" sample_world "\<lparr>data = \<lparr>value = [rejected_entry]\<rparr>, response_headers = []\<rparr>" "[]"
            rejected_entry] a b c
    by (simp add: rejected_entry_def)
qed

section \<open>Error Normalizer\<close>

subsection \<open>Which values have a string\<close>

lemma collect_Inr_iff: "(\<exists>ss. collect rs = Inr ss) \<longleftrightarrow> (\<forall>r \<in> set rs. \<exists>s. r = Inr s)"
  by (induction rs rule: collect.induct) (auto split: sum.splits)

lemma collect_Inl: "collect rs = Inl e \<Longrightarrow> Inl e \<in> set rs"
  by (induction rs rule: collect.induct) (auto split: sum.splits)

lemma to_string_Inr_iff: "(\<exists>s. to_string h v = Inr s) \<longleftrightarrow> convertible h v"
proof (induction h v rule: to_string.induct)
  case (1 h xs)
  let ?f = "\<lambda>x. if x = JUndefined \<or> x = JNull then Inr [] else to_string h x"
  have "(\<exists>s. to_string h (JArr xs) = Inr s) \<longleftrightarrow> (\<exists>ss. collect (map ?f xs) = Inr ss)"
    by (auto split: sum.splits)
  also have "\<dots> \<longleftrightarrow> (\<forall>x \<in> set xs. \<exists>s. ?f x = Inr s)"
    unfolding collect_Inr_iff set_map by blast
  also have "\<dots> \<longleftrightarrow> (\<forall>x \<in> set xs. convertible h x)"
  proof (rule ball_cong [OF refl])
    fix x assume x: "x \<in> set xs"
    show "(\<exists>s. ?f x = Inr s) \<longleftrightarrow> convertible h x"
    proof (cases "x = JUndefined \<or> x = JNull")
      case True
      then show ?thesis by auto
    next
      case False
      then show ?thesis using "1.IH" [OF x] by simp
    qed
  qed
  finally show ?case by simp
next
  case (2 h a)
  show ?case
    by (cases "deref h a") (auto simp add: map_of_eq_None_iff)
qed simp_all

lemma to_string_Inl:
  "to_string h v = Inl e \<Longrightarrow> e = TypeError ''Cannot convert object to primitive value''"
proof (induction h v arbitrary: e rule: to_string.induct)
  case (1 h xs)
  let ?f = "\<lambda>x. if x = JUndefined \<or> x = JNull then Inr [] else to_string h x"
  from "1.prems" have "collect (map ?f xs) = Inl e"
    by (auto split: sum.splits)
  then have "Inl e \<in> set (map ?f xs)"
    by (rule collect_Inl)
  then obtain x where x: "x \<in> set xs" and fx: "?f x = Inl e"
    by auto
  then have "\<not> (x = JUndefined \<or> x = JNull)" and "to_string h x = Inl e"
    by (auto split: if_splits)
  then show ?case using "1.IH" [OF x] by simp
next
  case (2 h a)
  then show ?case
    by (cases "deref h a") (auto split: if_splits)
qed simp_all

lemma to_string_not_convertible:
  "\<not> convertible h v \<Longrightarrow>
     to_string h v = Inl (TypeError ''Cannot convert object to primitive value'')"
  using to_string_Inr_iff [of h v] to_string_Inl [of h v] by (cases "to_string h v") auto

subsection \<open>The guard of the normalizer\<close>

lemma get_prop_defined:
  assumes "v \<noteq> JUndefined" and "v \<noteq> JNull"
  obtains x where "get_prop h v k = Inr x"
  using assms by (cases v) simp_all

lemma truthy_defined: "truthy v \<Longrightarrow> v \<noteq> JUndefined \<and> v \<noteq> JNull"
  by (cases v) simp_all

lemma falsy_get_prop:
  assumes "\<not> truthy v" and "k \<noteq> ''length''"
  shows "get_prop h v k = Inr JUndefined \<or> (\<exists>e. get_prop h v k = Inl e)"
  using assms by (cases v) (simp_all add: lookup_prop_def)

text \<open>Reading two properties deep from a falsy value raises.\<close>

lemma falsy_get_path2:
  assumes "\<not> truthy v" and "k \<noteq> ''length''"
  shows "\<exists>e. get_path h v (k # k' # ks) = Inl e"
  using falsy_get_prop [OF assms, of h] by auto

lemma falsy_get_path1:
  assumes "\<not> truthy v" and "k \<noteq> ''length''"
  shows "get_path h v [k] = Inr JUndefined \<or> (\<exists>e. get_path h v [k] = Inl e)"
  using falsy_get_prop [OF assms, of h] by auto

text \<open>The normalizer on a failure that is neither \<^verbatim>\<open>null\<close> nor \<^verbatim>\<open>undefined\<close>: the
  guard of the source holds exactly when the nested message can be read and is truthy.\<close>

lemma extractErrorMessage_eq:
  assumes "error \<noteq> JNull" and "error \<noteq> JUndefined"
  shows "extractErrorMessage h error =
     (case nested_message h error of
        Some m \<Rightarrow> Inr m
      | None \<Rightarrow>
          (case to_string h (fallback_subject h error) of
             Inl e \<Rightarrow> Inl e
           | Inr s \<Rightarrow> Inr (JStr (''Error: '' @ s))))"
proof -
  obtain own where own: "get_prop h error ''message'' = Inr own"
    using assms by (auto elim: get_prop_defined)
  define fallback :: "exn + jsval" where
    "fallback = (case to_string h (if truthy own then own else error) of
                   Inl e \<Rightarrow> Inl e
                 | Inr s \<Rightarrow> Inr (JStr (''Error: '' @ s)))"
  have fb: "(case to_string h (fallback_subject h error) of
              Inl e \<Rightarrow> Inl e
            | Inr s \<Rightarrow> Inr (JStr (''Error: '' @ s))) = fallback"
    by (simp add: fallback_def fallback_subject_def own_message_def own)
  obtain x1 where x1: "get_prop h error ''response'' = Inr x1"
    using assms by (auto elim: get_prop_defined)
  show ?thesis
  proof (cases "truthy x1")
    case False
    then obtain e where "get_path h x1 [''data'', ''error'', ''message''] = Inl e"
      using falsy_get_path2 [of x1 "''data''" h] by auto
    then have "nested_message h error = None"
      by (simp add: nested_message_def x1)
    moreover have "extractErrorMessage h error = fallback"
      using False by (simp add: extractErrorMessage_def js_and_def x1 own fallback_def)
    ultimately show ?thesis by (simp only: fb option.case)
  next
    case t1: True
    then obtain x2 where x2: "get_prop h x1 ''data'' = Inr x2"
      using truthy_defined [of x1] by (auto elim: get_prop_defined)
    show ?thesis
    proof (cases "truthy x2")
      case False
      then obtain e where "get_path h x2 [''error'', ''message''] = Inl e"
        using falsy_get_path2 [of x2 "''error''" h] by auto
      then have "nested_message h error = None"
        by (simp add: nested_message_def x1 x2)
      moreover have "extractErrorMessage h error = fallback"
        using False t1 by (simp add: extractErrorMessage_def js_and_def x1 x2 own fallback_def)
      ultimately show ?thesis by (simp only: fb option.case)
    next
      case t2: True
      then obtain x3 where x3: "get_prop h x2 ''error'' = Inr x3"
        using truthy_defined [of x2] by (auto elim: get_prop_defined)
      show ?thesis
      proof (cases "truthy x3")
        case False
        then have "get_path h x3 [''message''] = Inr JUndefined
                     \<or> (\<exists>e. get_path h x3 [''message''] = Inl e)"
          using falsy_get_path1 [of x3 "''message''" h] by simp
        then have "nested_message h error = None"
          by (auto simp add: nested_message_def x1 x2 x3)
        moreover have "extractErrorMessage h error = fallback"
          using False t1 t2
          by (simp add: extractErrorMessage_def js_and_def x1 x2 x3 own fallback_def)
        ultimately show ?thesis by (simp only: fb option.case)
      next
        case t3: True
        then obtain x4 where x4: "get_prop h x3 ''message'' = Inr x4"
          using truthy_defined [of x3] by (auto elim: get_prop_defined)
        have nm: "nested_message h error = (if truthy x4 then Some x4 else None)"
          by (simp add: nested_message_def x1 x2 x3 x4)
        have "extractErrorMessage h error = (if truthy x4 then Inr x4 else fallback)"
          using t1 t2 t3
          by (simp add: extractErrorMessage_def js_and_def x1 x2 x3 x4 own fallback_def)
        then show ?thesis by (simp only: nm fb) simp
      qed
    qed
  qed
qed

lemma extractErrorMessage_nullish:
  "error = JNull \<or> error = JUndefined \<Longrightarrow>
     extractErrorMessage h error = Inl (read_TypeError h error ''response'')"
  by (auto simp add: extractErrorMessage_def js_and_def)

lemma nested_message_truthy: "nested_message h error = Some m \<Longrightarrow> truthy m"
  by (auto simp add: nested_message_def split: sum.splits if_splits)

lemma fallback_string:
  assumes "error \<noteq> JNull" and "error \<noteq> JUndefined"
      and "nested_message h error = None"
      and "to_string h (fallback_subject h error) = Inr s"
  shows "extractErrorMessage h error = Inr (JStr (''Error: '' @ s))"
  using extractErrorMessage_eq [OF assms(1,2), of h] assms(3,4) by simp

lemma fallback_raises:
  assumes "error \<noteq> JNull" and "error \<noteq> JUndefined"
      and "nested_message h error = None"
      and "\<not> convertible h (fallback_subject h error)"
  shows "extractErrorMessage h error = Inl (TypeError ''Cannot convert object to primitive value'')"
  using extractErrorMessage_eq [OF assms(1,2), of h] assms(3)
    to_string_not_convertible [OF assms(4)]
  by simp

text \<open>
  C3, as the code has it. For a failure value that is not \<^verbatim>\<open>null\<close> or \<^verbatim>\<open>undefined\<close>:
  when its body carries a truthy nested \<^verbatim>\<open>response.data.error.message\<close> (for a string:
  a non-empty one), that message is returned as it is. In every other case, also when
  the nested message is the empty string, the fallback takes the failure's own message
  when that is truthy, and the failure itself otherwise, and returns \<^verbatim>\<open>Error: \<close>
  followed by that value as a string: a string message unchanged, a thrown string
  unchanged, \<^verbatim>\<open>[object Object]\<close> for a plain object, the class name for an
  \<^verbatim>\<open>Error\<close> without message. When that value has no string (it is, or as an array
  holds, an object with an own property \<^verbatim>\<open>toString\<close>), the conversion raises a
  \<^verbatim>\<open>TypeError\<close>.
\<close>

theorem extractErrorMessage_priority:
  assumes "error \<noteq> JNull" and "error \<noteq> JUndefined"
  shows "(\<forall>m. nested_message h error = Some m \<longrightarrow> extractErrorMessage h error = Inr m)
       \<and> (\<forall>s. nested_message h error = None \<and> to_string h (fallback_subject h error) = Inr s
              \<longrightarrow> extractErrorMessage h error = Inr (JStr (''Error: '' @ s)))
       \<and> (nested_message h error = None \<and> \<not> convertible h (fallback_subject h error)
              \<longrightarrow> extractErrorMessage h error
                    = Inl (TypeError ''Cannot convert object to primitive value''))
       \<and> (\<forall>s. nested_message h error = None \<and> own_message h error = Some (JStr s)
              \<longrightarrow> extractErrorMessage h error = Inr (JStr (''Error: '' @ s)))
       \<and> (\<forall>s. nested_message h error = None \<and> own_message h error = None \<and> error = JStr s
              \<longrightarrow> extractErrorMessage h error = Inr (JStr (''Error: '' @ s)))
       \<and> (\<forall>a ps. nested_message h error = None \<and> own_message h error = None \<and> error = JRef a
                 \<and> a < length h \<and> h ! a = PlainObj ps \<and> ''toString'' \<notin> fst ` set ps
              \<longrightarrow> extractErrorMessage h error = Inr (JStr ''Error: [object Object]''))
       \<and> (\<forall>a name ps. nested_message h error = None \<and> error = JRef a
                 \<and> a < length h \<and> h ! a = ErrorObj name [] ps \<and> ''toString'' \<notin> fst ` set ps
              \<longrightarrow> extractErrorMessage h error = Inr (JStr (''Error: '' @ name)))"
proof (intro conjI allI impI)
  fix m assume "nested_message h error = Some m"
  then show "extractErrorMessage h error = Inr m"
    using extractErrorMessage_eq [OF assms, of h] by simp
next
  fix s assume "nested_message h error = None \<and> to_string h (fallback_subject h error) = Inr s"
  then show "extractErrorMessage h error = Inr (JStr (''Error: '' @ s))"
    using fallback_string [OF assms] by simp
next
  assume "nested_message h error = None \<and> \<not> convertible h (fallback_subject h error)"
  then show "extractErrorMessage h error
               = Inl (TypeError ''Cannot convert object to primitive value'')"
    using fallback_raises [OF assms] by simp
next
  fix s assume a: "nested_message h error = None \<and> own_message h error = Some (JStr s)"
  note n = a [THEN conjunct1] and own = a [THEN conjunct2]
  have "to_string h (fallback_subject h error) = Inr s"
    by (simp add: fallback_subject_def own)
  then show "extractErrorMessage h error = Inr (JStr (''Error: '' @ s))"
    by (rule fallback_string [OF assms n])
next
  fix s
  assume a: "nested_message h error = None \<and> own_message h error = None \<and> error = JStr s"
  note n = a [THEN conjunct1] and own = a [THEN conjunct2, THEN conjunct1]
    and e = a [THEN conjunct2, THEN conjunct2]
  have "fallback_subject h error = error"
    by (simp add: fallback_subject_def own)
  then have "to_string h (fallback_subject h error) = Inr s"
    by (simp add: e)
  then show "extractErrorMessage h error = Inr (JStr (''Error: '' @ s))"
    by (rule fallback_string [OF assms n])
next
  fix a ps
  assume a: "nested_message h error = None \<and> own_message h error = None \<and> error = JRef a
               \<and> a < length h \<and> h ! a = PlainObj ps \<and> ''toString'' \<notin> fst ` set ps"
  note n = a [THEN conjunct1] and own = a [THEN conjunct2, THEN conjunct1]
    and e = a [THEN conjunct2, THEN conjunct2, THEN conjunct1]
    and rest = a [THEN conjunct2, THEN conjunct2, THEN conjunct2]
  have "fallback_subject h error = error"
    by (simp add: fallback_subject_def own)
  then have "to_string h (fallback_subject h error) = Inr ''[object Object]''"
    using rest by (simp add: e deref_def own_properties_def map_of_eq_None_iff)
  then have "extractErrorMessage h error = Inr (JStr (''Error: '' @ ''[object Object]''))"
    by (rule fallback_string [OF assms n])
  then show "extractErrorMessage h error = Inr (JStr ''Error: [object Object]'')"
    by simp
next
  fix a name ps
  assume a: "nested_message h error = None \<and> error = JRef a
               \<and> a < length h \<and> h ! a = ErrorObj name [] ps \<and> ''toString'' \<notin> fst ` set ps"
  note n = a [THEN conjunct1] and e = a [THEN conjunct2, THEN conjunct1]
    and rest = a [THEN conjunct2, THEN conjunct2]
  have own: "own_message h error = None"
    unfolding own_message_def e using rest by (simp add: deref_def)
  have "fallback_subject h error = error"
    by (simp add: fallback_subject_def own)
  then have "to_string h (fallback_subject h error) = Inr name"
    using rest
    by (simp add: e deref_def own_properties_def map_of_eq_None_iff error_toString_def)
  then show "extractErrorMessage h error = Inr (JStr (''Error: '' @ name))"
    by (rule fallback_string [OF assms n])
qed

theorem extractErrorMessage_priority_witness:
  "nested_message sample_failures (JRef 3) = Some (JStr ''boom'')
   \<and> extractErrorMessage sample_failures (JRef 3) = Inr (JStr ''boom'')
   \<and> nested_message sample_failures (JRef 4) = None
   \<and> own_message sample_failures (JRef 4) = Some (JStr ''net down'')
   \<and> extractErrorMessage sample_failures (JRef 4) = Inr (JStr ''Error: net down'')
   \<and> nested_message sample_failures (JRef 1) = None
   \<and> extractErrorMessage sample_failures (JRef 1) = Inr (JStr ''Error: [object Object]'')
   \<and> \<not> convertible sample_failures (fallback_subject sample_failures (JRef 14))
   \<and> extractErrorMessage sample_failures (JRef 14)
       = Inl (TypeError ''Cannot convert object to primitive value'')"
proof -
  have a: "nested_message sample_failures (JRef 3) = Some (JStr ''boom'')"
    by (simp add: nested_message_def sample_failures_def deref_def lookup_prop_def)
  have b: "nested_message sample_failures (JRef 4) = None"
    by (simp add: nested_message_def sample_failures_def deref_def lookup_prop_def
          read_TypeError_def)
  have c: "own_message sample_failures (JRef 4) = Some (JStr ''net down'')"
    by (simp add: own_message_def sample_failures_def deref_def)
  have d: "nested_message sample_failures (JRef 1) = None"
    by (simp add: nested_message_def sample_failures_def deref_def lookup_prop_def
          read_TypeError_def)
  have e: "own_message sample_failures (JRef 1) = None"
    by (simp add: own_message_def sample_failures_def deref_def lookup_prop_def)
  have f: "1 < length sample_failures" "sample_failures ! 1 = PlainObj [(''error'', JRef 0)]"
    by (simp_all add: sample_failures_def)
  have g: "nested_message sample_failures (JRef 14) = None"
    by (simp add: nested_message_def sample_failures_def deref_def lookup_prop_def
          read_TypeError_def)
  have k: "\<not> convertible sample_failures (fallback_subject sample_failures (JRef 14))"
    by (simp add: fallback_subject_def own_message_def sample_failures_def deref_def
          lookup_prop_def own_properties_def)
  note inst3 = extractErrorMessage_priority [of "JRef 3" sample_failures]
  note inst4 = extractErrorMessage_priority [of "JRef 4" sample_failures]
  note inst1 = extractErrorMessage_priority [of "JRef 1" sample_failures]
  note inst14 = extractErrorMessage_priority [of "JRef 14" sample_failures]
  have r3: "extractErrorMessage sample_failures (JRef 3) = Inr (JStr ''boom'')"
    using inst3 [THEN conjunct1, rule_format, OF _ _ a] by simp
  have r4: "extractErrorMessage sample_failures (JRef 4) = Inr (JStr (''Error: '' @ ''net down''))"
    using inst4 [THEN conjunct2, THEN conjunct2, THEN conjunct2, THEN conjunct1, rule_format,
                 of "''net down''"] b c
    by simp
  have r1: "extractErrorMessage sample_failures (JRef 1) = Inr (JStr ''Error: [object Object]'')"
    using inst1 [THEN conjunct2, THEN conjunct2, THEN conjunct2, THEN conjunct2, THEN conjunct2,
                 THEN conjunct1, rule_format, of 1 "[(''error'', JRef 0)]"] d e f
    by simp
  have r14: "extractErrorMessage sample_failures (JRef 14)
               = Inl (TypeError ''Cannot convert object to primitive value'')"
    using inst14 [THEN conjunct2, THEN conjunct2, THEN conjunct1] g k by simp
  show ?thesis
    using a b c d k r3 r4 r1 r14 by simp
qed

text \<open>
  C3 as stated fails three times. A failure whose body carries the nested message
  \<^verbatim>\<open>""\<close> does not get that message back but the fallback text. For \<^verbatim>\<open>null\<close>, a
  failure value without a body, reading \<^verbatim>\<open>error.response\<close> raises. And for the failure
  \<^verbatim>\<open>{toString: 1}\<close>, without body and without message, the conversion to a string
  raises: no text is returned.
\<close>

theorem extractErrorMessage_priority_counterexample:
  "get_path sample_failures (JRef 8) [''response'', ''data'', ''error'', ''message''] = Inr (JStr [])
   \<and> extractErrorMessage sample_failures (JRef 8)
       = Inr (JStr ''Error: Request failed with status code 400'')
   \<and> extractErrorMessage sample_failures (JRef 8) \<noteq> Inr (JStr [])
   \<and> (\<exists>m. extractErrorMessage sample_failures JNull = Inl (TypeError m))
   \<and> sample_failures ! 13 = PlainObj [(''toString'', JNum 1)]
   \<and> extractErrorMessage sample_failures (JRef 13)
       = Inl (TypeError ''Cannot convert object to primitive value'')"
  by (simp add: extractErrorMessage_def js_and_def sample_failures_def deref_def lookup_prop_def
        read_TypeError_def own_properties_def)

text \<open>
  C4, as the code has it. The normalizer raises, and then a \<^verbatim>\<open>TypeError\<close>, in two
  cases only: the failure value is \<^verbatim>\<open>null\<close> or \<^verbatim>\<open>undefined\<close>; or there is no truthy
  nested message and the value that the fallback turns into a string (the failure's own
  message when truthy, the failure itself otherwise) has no string, being or holding an
  object with an own property \<^verbatim>\<open>toString\<close>. For every other failure value, whatever
  its body is, it returns, and what it returns is truthy: a string, unless the nested
  message is a truthy value that is not a string, which is returned as it is.
\<close>

theorem extractErrorMessage_returns:
  "((\<exists>e. extractErrorMessage h error = Inl e) \<longleftrightarrow>
      error = JNull \<or> error = JUndefined
      \<or> (nested_message h error = None \<and> \<not> convertible h (fallback_subject h error)))
   \<and> (\<forall>e. extractErrorMessage h error = Inl e \<longrightarrow> (\<exists>m. e = TypeError m))
   \<and> (\<forall>v. extractErrorMessage h error = Inr v \<longrightarrow>
          truthy v \<and> ((\<exists>s. v = JStr s) \<or> nested_message h error = Some v))"
proof (cases "error = JNull \<or> error = JUndefined")
  case True
  obtain m where "extractErrorMessage h error = Inl (TypeError m)"
    using extractErrorMessage_nullish [OF True, of h] by (simp add: read_TypeError_def)
  then show ?thesis
    using True by auto
next
  case False
  then have nn: "error \<noteq> JNull" "error \<noteq> JUndefined" by simp_all
  note eq = extractErrorMessage_eq [OF nn, of h]
  show ?thesis
  proof (cases "nested_message h error")
    case (Some m)
    then have "extractErrorMessage h error = Inr m" using eq by simp
    moreover have "truthy m" using Some by (rule nested_message_truthy)
    ultimately show ?thesis using Some False by simp
  next
    case None
    show ?thesis
    proof (cases "convertible h (fallback_subject h error)")
      case True
      then obtain s where s: "to_string h (fallback_subject h error) = Inr s"
        using to_string_Inr_iff [of h "fallback_subject h error"] by blast
      define r where "r = ''Error: '' @ s"
      have "extractErrorMessage h error = Inr (JStr r)"
        using fallback_string [OF nn None s] by (simp add: r_def)
      moreover have "truthy (JStr r)" by (simp add: r_def)
      ultimately show ?thesis using None True False by simp
    next
      case nc: False
      define m where "m = ''Cannot convert object to primitive value''"
      have "extractErrorMessage h error = Inl (TypeError m)"
        using fallback_raises [OF nn None nc] by (simp add: m_def)
      then show ?thesis using None nc by simp
    qed
  qed
qed

theorem extractErrorMessage_returns_witness:
  "extractErrorMessage sample_failures (JRef 0) = Inr (JStr ''Error: boom'')
   \<and> truthy (JStr ''Error: boom'')
   \<and> JRef 0 \<noteq> JNull \<and> JRef 0 \<noteq> JUndefined
   \<and> convertible sample_failures (fallback_subject sample_failures (JRef 0))
   \<and> (\<exists>m. extractErrorMessage sample_failures (JRef 14) = Inl (TypeError m))
   \<and> nested_message sample_failures (JRef 14) = None
   \<and> \<not> convertible sample_failures (fallback_subject sample_failures (JRef 14))"
proof -
  have a: "extractErrorMessage sample_failures (JRef 0) = Inr (JStr ''Error: boom'')"
    by (simp add: extractErrorMessage_def js_and_def lookup_prop_def sample_failures_def deref_def
          own_properties_def)
  have b: "nested_message sample_failures (JRef 14) = None"
    by (simp add: nested_message_def sample_failures_def deref_def lookup_prop_def
          read_TypeError_def)
  have c: "\<not> convertible sample_failures (fallback_subject sample_failures (JRef 14))"
    by (simp add: fallback_subject_def own_message_def sample_failures_def deref_def
          lookup_prop_def own_properties_def)
  note inst0 = extractErrorMessage_returns [of sample_failures "JRef 0"]
  note inst14 = extractErrorMessage_returns [of sample_failures "JRef 14"]
  have n0: "nested_message sample_failures (JRef 0) = None"
    by (simp add: nested_message_def sample_failures_def deref_def lookup_prop_def
          read_TypeError_def)
  have d: "convertible sample_failures (fallback_subject sample_failures (JRef 0))"
    using inst0 [THEN conjunct1] a n0 by simp
  have e: "\<exists>e. extractErrorMessage sample_failures (JRef 14) = Inl e"
    using inst14 [THEN conjunct1] b c by simp
  then obtain e where e1: "extractErrorMessage sample_failures (JRef 14) = Inl e" ..
  then have "\<exists>m. e = TypeError m"
    using inst14 [THEN conjunct2, THEN conjunct1] by simp
  with e1 have f: "\<exists>m. extractErrorMessage sample_failures (JRef 14) = Inl (TypeError m)"
    by auto
  show ?thesis using a b c d f by simp
qed

text \<open>
  C4 as stated fails: for \<^verbatim>\<open>undefined\<close> and for \<^verbatim>\<open>null\<close> the normalizer raises a
  \<^verbatim>\<open>TypeError\<close>; for a failure whose message is the object \<^verbatim>\<open>{toString: 1}\<close> it
  raises one as well; and for a body whose nested message is \<^verbatim>\<open>true\<close> it returns
  \<^verbatim>\<open>true\<close>, which is not a string.
\<close>

theorem extractErrorMessage_returns_counterexample:
  "extractErrorMessage sample_failures JUndefined
     = Inl (TypeError (''Cannot read property '' @ [CHR 0x27] @ ''response'' @ [CHR 0x27]
                       @ '' of undefined''))
   \<and> extractErrorMessage sample_failures JNull
     = Inl (TypeError (''Cannot read property '' @ [CHR 0x27] @ ''response'' @ [CHR 0x27]
                       @ '' of null''))
   \<and> sample_failures ! 14 = PlainObj [(''message'', JRef 13)]
   \<and> sample_failures ! 13 = PlainObj [(''toString'', JNum 1)]
   \<and> extractErrorMessage sample_failures (JRef 14)
     = Inl (TypeError ''Cannot convert object to primitive value'')
   \<and> extractErrorMessage sample_failures (JRef 12) = Inr (JBool True)"
  by (simp add: extractErrorMessage_def js_and_def sample_failures_def deref_def lookup_prop_def
        read_TypeError_def own_properties_def)

section \<open>Batch Document Writer: the submitted batch\<close>














section \<open>Query Engine\<close>

subsection \<open>Reading a property after a write\<close>

lemma map_of_replace_prop:
  "map_of ps k \<noteq> None \<Longrightarrow>
     map_of (replace_prop k v ps) k' = (if k' = k then Some v else map_of ps k')"
  by (induction ps) auto

lemma map_of_insert_prop:
  "map_of ps k = None \<Longrightarrow>
     map_of (insert_prop k v ps) k' = (if k' = k then Some v else map_of ps k')"
  by (induction ps) (auto split: option.splits)

lemma lookup_prop_update:
  "k \<noteq> ''__proto__'' \<Longrightarrow>
     lookup_prop (update_prop k v ps) k' = (if k' = k then v else lookup_prop ps k')"
  by (cases "map_of ps k")
     (simp_all add: lookup_prop_def update_prop_def map_of_replace_prop map_of_insert_prop)

lemma deref_put_prop:
  "deref (put_prop h a k v) b = (if b = a \<and> a < length h then write_obj k v (deref h a) else deref h b)"
  by (simp add: deref_def put_prop_def)

lemma get_prop_put_prop:
  assumes "a < length h" and "k \<noteq> ''message''" and "k \<noteq> ''name''" and "k \<noteq> ''__proto__''"
  shows "get_prop (put_prop h a k v) (JRef a) k' = (if k' = k then Inr v else get_prop h (JRef a) k')"
  using assms by (cases "deref h a") (auto simp add: deref_put_prop lookup_prop_update)

lemma length_put_prop: "length (put_prop h a k v) = length h"
  by (simp add: put_prop_def)

subsection \<open>The properties of an array\<close>

lemma digits_chars: "0 \<le> i \<Longrightarrow> set (digits i) \<subseteq> set ''0123456789''"
proof (induction i rule: digits.induct)
  case (1 i)
  have d: "''0123456789'' ! nat j \<in> set ''0123456789''" if "0 \<le> j" "j < 10" for j :: int
    by (rule nth_mem) (use that in simp)
  show ?case
  proof (cases "i < 10")
    case True
    then show ?thesis
      using d [of i] "1.prems" by (subst digits.simps) simp
  next
    case False
    then have "set (digits (i div 10)) \<subseteq> set ''0123456789''"
      using "1.IH" "1.prems" by simp
    moreover have "''0123456789'' ! nat (i mod 10) \<in> set ''0123456789''"
      by (rule d) simp_all
    ultimately show ?thesis
      using False by (subst digits.simps) simp
  qed
qed

lemma indexed_keys: "p \<in> set (indexed i xs) \<Longrightarrow> set (fst p) \<subseteq> set ''0123456789''"
proof (induction xs arbitrary: i)
  case Nil
  then show ?case by simp
next
  case (Cons x xs)
  have "set (dec_nat i) \<subseteq> set ''0123456789''"
    unfolding dec_nat_def by (rule digits_chars) simp
  then show ?case
    using Cons.prems Cons.IH [of "Suc i"] by (cases "p = (dec_nat i, x)") simp_all
qed

lemma array_named_property:
  assumes "ch \<in> set k" and "ch \<notin> set ''0123456789''" and "k \<noteq> ''length''"
  shows "get_prop h (JArr xs) k = Inr JUndefined"
proof -
  have "map_of (indexed 0 xs) k = None"
  proof (rule ccontr)
    assume "map_of (indexed 0 xs) k \<noteq> None"
    then obtain v where "(k, v) \<in> set (indexed 0 xs)"
      by (auto dest: map_of_SomeD)
    then have "set k \<subseteq> set ''0123456789''"
      using indexed_keys [of "(k, v)" 0 xs] by simp
    with assms(1,2) show False by blast
  qed
  then show ?thesis
    using assms(3) by (simp add: lookup_prop_def)
qed

lemma array_fields:
  "get_prop h (JArr xs) ''@odata.nextLink'' = Inr JUndefined"
  "get_prop h (JArr xs) ''@search.nextPageParameters'' = Inr JUndefined"
  "get_prop h (JArr xs) ''nextLink'' = Inr JUndefined"
  "get_prop h (JArr xs) ''nextPageParameteres'' = Inr JUndefined"
  by (rule array_named_property [of "CHR ''n''"]; simp)+

subsection \<open>The fixup\<close>

lemma fixupQueryResponse_object:
  assumes "a < length h"
  shows "\<exists>link params.
           get_prop h (JRef a) ''@odata.nextLink'' = Inr link
         \<and> get_prop h (JRef a) ''@search.nextPageParameters'' = Inr params
         \<and> fixupQueryResponse h (JRef a) =
             Inr (put_prop (put_prop h a ''nextLink'' link) a ''nextPageParameteres'' params)"
proof -
  obtain link where l: "get_prop h (JRef a) ''@odata.nextLink'' = Inr link" by simp
  obtain params where p: "get_prop h (JRef a) ''@search.nextPageParameters'' = Inr params" by simp
  have "get_prop (put_prop h a ''nextLink'' link) (JRef a) ''@search.nextPageParameters'' = Inr params"
    using assms p by (simp del: get_prop.simps add: get_prop_put_prop)
  then have "fixupQueryResponse h (JRef a) =
             Inr (put_prop (put_prop h a ''nextLink'' link) a ''nextPageParameteres'' params)"
    using l unfolding fixupQueryResponse_def by simp
  with l p show ?thesis by blast
qed

lemma fixupQueryResponse_fixed_up:
  assumes "has_properties h body"
  shows "\<exists>h'. fixupQueryResponse h body = Inr h' \<and> fixed_up h h' body"
proof (cases body)
  case (JRef a)
  then have a: "a < length h"
    using assms by (simp add: has_properties_def)
  obtain link params where l: "get_prop h (JRef a) ''@odata.nextLink'' = Inr link"
    and p: "get_prop h (JRef a) ''@search.nextPageParameters'' = Inr params"
    and f: "fixupQueryResponse h (JRef a) =
             Inr (put_prop (put_prop h a ''nextLink'' link) a ''nextPageParameteres'' params)"
    using fixupQueryResponse_object [OF a] by blast
  let ?h1 = "put_prop h a ''nextLink'' link"
  let ?h2 = "put_prop ?h1 a ''nextPageParameteres'' params"
  have len: "a < length ?h1" using a by (simp add: length_put_prop)
  have g: "get_prop ?h2 (JRef a) k =
             (if k = ''nextPageParameteres'' then Inr params
              else if k = ''nextLink'' then Inr link else get_prop h (JRef a) k)" for k
    using a len by (simp del: get_prop.simps add: get_prop_put_prop)
  have "fixed_up h ?h2 (JRef a)"
    unfolding fixed_up_def
  proof (intro conjI allI impI)
    show "get_prop ?h2 (JRef a) ''nextLink'' = get_prop h (JRef a) ''@odata.nextLink''"
      unfolding g l by simp
    show "get_prop ?h2 (JRef a) ''nextPageParameteres''
            = get_prop h (JRef a) ''@search.nextPageParameters''"
      unfolding g p by simp
    show "get_prop ?h2 (JRef a) k = get_prop h (JRef a) k"
      if "k \<noteq> ''nextLink'' \<and> k \<noteq> ''nextPageParameteres''" for k
      using that unfolding g by simp
    show "deref ?h2 b = deref h b" if "JRef a \<noteq> JRef b" for b
      using that by (simp add: deref_put_prop)
  qed
  with f show ?thesis unfolding JRef by blast
next
  case (JArr xs)
  have "fixupQueryResponse h (JArr xs) = Inr h"
    unfolding fixupQueryResponse_def by (simp only: array_fields) simp
  moreover have "fixed_up h h (JArr xs)"
    unfolding fixed_up_def by (simp only: array_fields) simp
  ultimately show ?thesis unfolding JArr by blast
qed (use assms in \<open>simp_all add: has_properties_def\<close>)

lemma fixupQueryResponse_primitive:
  assumes "primitive body"
  shows "\<exists>m. fixupQueryResponse h body = Inl (TypeError m)"
  using assms
  by (cases body)
     (simp_all add: primitive_def fixupQueryResponse_def read_TypeError_def write_TypeError_def
        lookup_prop_def)

text \<open>
  C7, as the code has it. With \<open>raw\<close> true, \<open>query\<close> returns the body the service sent,
  whatever it is, and leaves the store as the transport left it: nothing is written. With
  \<open>raw\<close> false, and in \<open>queryNext\<close> always, a body that has properties (an object, or an
  array) is returned after the fixup: its \<^verbatim>\<open>nextLink\<close> is what its
  \<^verbatim>\<open>@odata.nextLink\<close> was, its continuation parameters (the property the source spells
  \<^verbatim>\<open>nextPageParameteres\<close>) are what its \<^verbatim>\<open>@search.nextPageParameters\<close> was, and every
  other property and every other object is as before. For a body that is \<^verbatim>\<open>null\<close>,
  \<^verbatim>\<open>undefined\<close>, a string, a number or a boolean the fixup raises a \<^verbatim>\<open>TypeError\<close>.
\<close>

theorem query_fixup:
  "(\<forall>r w1. httpGet t c (''indexes/'' @ indexName @ ''/docs'') qs w = (Inr r, w1) \<longrightarrow>
       query t c indexName qs True w = (Inr (data r), w1)
     \<and> (has_properties (objs w1) (data r) \<longrightarrow>
          (\<exists>h. query t c indexName qs False w = (Inr (data r), w1\<lparr>objs := h\<rparr>)
              \<and> fixed_up (objs w1) h (data r)))
     \<and> (primitive (data r) \<longrightarrow>
          (\<exists>m. query t c indexName qs False w = (Inl (TypeError m), w1))))
   \<and> (\<forall>r w1. httpGetUrl t c link w = (Inr r, w1) \<longrightarrow>
       (has_properties (objs w1) (data r) \<longrightarrow>
          (\<exists>h. queryNext t c link w = (Inr (data r), w1\<lparr>objs := h\<rparr>)
              \<and> fixed_up (objs w1) h (data r)))
     \<and> (primitive (data r) \<longrightarrow>
          (\<exists>m. queryNext t c link w = (Inl (TypeError m), w1))))"
proof (intro conjI allI impI)
  fix r w1
  assume g: "httpGet t c (''indexes/'' @ indexName @ ''/docs'') qs w = (Inr r, w1)"
  show "query t c indexName qs True w = (Inr (data r), w1)"
    using g by (simp add: query_def)
  show "\<exists>h. query t c indexName qs False w = (Inr (data r), w1\<lparr>objs := h\<rparr>)
           \<and> fixed_up (objs w1) h (data r)"
    if hp: "has_properties (objs w1) (data r)"
  proof -
    obtain h where f: "fixupQueryResponse (objs w1) (data r) = Inr h"
      and u: "fixed_up (objs w1) h (data r)"
      using fixupQueryResponse_fixed_up [OF hp] by blast
    have "query t c indexName qs False w = (Inr (data r), w1\<lparr>objs := h\<rparr>)"
      using g f by (simp add: query_def)
    with u show ?thesis by blast
  qed
  show "\<exists>m. query t c indexName qs False w = (Inl (TypeError m), w1)"
    if pr: "primitive (data r)"
  proof -
    obtain m where "fixupQueryResponse (objs w1) (data r) = Inl (TypeError m)"
      using fixupQueryResponse_primitive [OF pr] by blast
    then show ?thesis using g by (simp add: query_def)
  qed
next
  fix r w1
  assume g: "httpGetUrl t c link w = (Inr r, w1)"
  show "\<exists>h. queryNext t c link w = (Inr (data r), w1\<lparr>objs := h\<rparr>)
           \<and> fixed_up (objs w1) h (data r)"
    if hp: "has_properties (objs w1) (data r)"
  proof -
    obtain h where f: "fixupQueryResponse (objs w1) (data r) = Inr h"
      and u: "fixed_up (objs w1) h (data r)"
      using fixupQueryResponse_fixed_up [OF hp] by blast
    have "queryNext t c link w = (Inr (data r), w1\<lparr>objs := h\<rparr>)"
      using g f by (simp add: queryNext_def)
    with u show ?thesis by blast
  qed
  show "\<exists>m. queryNext t c link w = (Inl (TypeError m), w1)"
    if pr: "primitive (data r)"
  proof -
    obtain m where "fixupQueryResponse (objs w1) (data r) = Inl (TypeError m)"
      using fixupQueryResponse_primitive [OF pr] by blast
    then show ?thesis using g by (simp add: queryNext_def)
  qed
qed

theorem query_fixup_witness:
  "query reply_page sample_client ''hotels'' ''search=*'' True sample_world
     = (Inr (JRef 1),
        \<lparr>objs = objs sample_world @ sample_page (objs sample_world),
         sent = [get_request sample_client
                   ''https://svc.search.windows.net/indexes/hotels/docs?api-version=2019-05-06&search=*'']\<rparr>)
   \<and> (\<exists>h. fst (query reply_page sample_client ''hotels'' ''search=*'' False sample_world) = Inr (JRef 1)
          \<and> objs (snd (query reply_page sample_client ''hotels'' ''search=*'' False sample_world)) = h
          \<and> get_prop h (JRef 1) ''nextLink'' = Inr (JStr ''https://svc.search.windows.net/next'')
          \<and> get_prop h (JRef 1) ''nextPageParameteres'' = Inr (JRef 2))
   \<and> (\<exists>h. fst (queryNext reply_page sample_client ''https://svc.search.windows.net/next'' sample_world)
            = Inr (JRef 1)
          \<and> objs (snd (queryNext reply_page sample_client ''https://svc.search.windows.net/next''
                          sample_world)) = h
          \<and> get_prop h (JRef 1) ''nextLink'' = Inr (JStr ''https://svc.search.windows.net/next'')
          \<and> get_prop h (JRef 1) ''nextPageParameteres'' = Inr (JRef 2))
   \<and> primitive JNull
   \<and> (\<exists>m. fst (queryNext (reply_body JNull) sample_client ''https://svc.search.windows.net/next''
                   sample_world) = Inl (TypeError m))"
proof -
  let ?new = "sample_page (objs sample_world)"
  let ?r = "\<lparr>data = JRef 1, response_headers = []\<rparr> :: jsval AxiosResponse"
  let ?n = "\<lparr>data = JNull, response_headers = []\<rparr> :: jsval AxiosResponse"
  let ?w1 = "\<lparr>objs = objs sample_world @ ?new,
              sent = [get_request sample_client
                   ''https://svc.search.windows.net/indexes/hotels/docs?api-version=2019-05-06&search=*'']\<rparr>"
  let ?w2 = "\<lparr>objs = objs sample_world @ ?new,
              sent = [get_request sample_client ''https://svc.search.windows.net/next'']\<rparr>"
  let ?w3 = "\<lparr>objs = objs sample_world,
              sent = [get_request sample_client ''https://svc.search.windows.net/next'']\<rparr>"
  have a: "httpGet reply_page sample_client (''indexes/'' @ ''hotels'' @ ''/docs'') ''search=*'' sample_world
             = (Inr ?r, ?w1)"
    by (simp add: httpGet_def httpGetUrl_def Axios_get_def Axios_request_def reply_page_def
          sample_world_def get_request_def makeUrl_def API_VERSION_def sample_client_def)
  have b: "httpGetUrl reply_page sample_client ''https://svc.search.windows.net/next'' sample_world
             = (Inr ?r, ?w2)"
    by (simp add: httpGetUrl_def Axios_get_def Axios_request_def reply_page_def
          sample_world_def get_request_def)
  have c: "httpGetUrl (reply_body JNull) sample_client ''https://svc.search.windows.net/next''
             sample_world = (Inr ?n, ?w3)"
    by (simp add: httpGetUrl_def Axios_get_def Axios_request_def reply_body_def get_request_def
          sample_world_def)
  have d: "has_properties (objs ?w1) (data ?r)" "has_properties (objs ?w2) (data ?r)"
    by (simp_all add: has_properties_def sample_world_def sample_page_def)
  have p: "primitive (data ?n)" "primitive JNull"
    by (simp_all add: primitive_def)
  have e: "get_prop (objs ?w1) (JRef 1) ''@odata.nextLink'' = Inr (JStr ''https://svc.search.windows.net/next'')"
    "get_prop (objs ?w1) (JRef 1) ''@search.nextPageParameters'' = Inr (JRef 2)"
    by (simp_all add: sample_world_def sample_page_def deref_def lookup_prop_def numeral_2_eq_2)
  have f: "objs ?w2 = objs ?w1" by simp
  note inst = query_fixup [of reply_page sample_client "''hotels''" "''search=*''" sample_world
                             "''https://svc.search.windows.net/next''"]
  note instq = inst [THEN conjunct1, rule_format, OF a]
  note instn = inst [THEN conjunct2, rule_format, OF b]
  note instz = query_fixup [of "reply_body JNull" sample_client "''hotels''" "''search=*''"
                              sample_world "''https://svc.search.windows.net/next''",
                            THEN conjunct2, rule_format, OF c]
  have q1: "query reply_page sample_client ''hotels'' ''search=*'' True sample_world = (Inr (JRef 1), ?w1)"
    using instq [THEN conjunct1] by simp
  obtain h where q2: "query reply_page sample_client ''hotels'' ''search=*'' False sample_world
                        = (Inr (data ?r), ?w1\<lparr>objs := h\<rparr>)"
    and fu: "fixed_up (objs ?w1) h (data ?r)"
    using instq [THEN conjunct2, THEN conjunct1, rule_format, OF d(1)] by (elim exE conjE)
  obtain h2 where q3: "queryNext reply_page sample_client ''https://svc.search.windows.net/next''
                         sample_world = (Inr (data ?r), ?w2\<lparr>objs := h2\<rparr>)"
    and fu2: "fixed_up (objs ?w2) h2 (data ?r)"
    using instn [THEN conjunct1, rule_format, OF d(2)] by (elim exE conjE)
  obtain m where q4: "queryNext (reply_body JNull) sample_client ''https://svc.search.windows.net/next''
                        sample_world = (Inl (TypeError m), ?w3)"
    using instz [THEN conjunct2, rule_format, OF p(1)] by (elim exE)
  have g: "get_prop h (JRef 1) ''nextLink'' = Inr (JStr ''https://svc.search.windows.net/next'')"
    "get_prop h (JRef 1) ''nextPageParameteres'' = Inr (JRef 2)"
    using fu e unfolding fixed_up_def by (simp_all del: get_prop.simps)
  have g2: "get_prop h2 (JRef 1) ''nextLink'' = Inr (JStr ''https://svc.search.windows.net/next'')"
    "get_prop h2 (JRef 1) ''nextPageParameteres'' = Inr (JRef 2)"
    using fu2 e unfolding fixed_up_def f by (simp_all del: get_prop.simps)
  show ?thesis
    unfolding q1 q2 q3 q4 using g g2 p(2) by (simp del: get_prop.simps)
qed

text \<open>
  C7 as stated fails for a body without properties: when the service answers with
  \<^verbatim>\<open>null\<close>, \<open>query\<close> with \<open>raw\<close> false does not return the body with normalized fields but
  raises, on reading \<^verbatim>\<open>response["@odata.nextLink"]\<close>; when it answers with a string,
  \<open>queryNext\<close> raises on writing \<^verbatim>\<open>response.nextLink\<close>.
\<close>

theorem query_fixup_counterexample:
  "(\<exists>m. query (reply_body JNull) sample_client ''hotels'' ''search=*'' False sample_world
          = (Inl (TypeError m),
             \<lparr>objs = objs sample_world,
              sent = [get_request sample_client
                        ''https://svc.search.windows.net/indexes/hotels/docs?api-version=2019-05-06&search=*'']\<rparr>))
   \<and> (\<exists>m. fst (queryNext (reply_body (JStr ''page'')) sample_client
                     ''https://svc.search.windows.net/next'' sample_world)
          = Inl (TypeError m))"
  by (simp add: query_def queryNext_def httpGet_def httpGetUrl_def Axios_get_def Axios_request_def
        reply_body_def get_request_def makeUrl_def API_VERSION_def sample_client_def
        fixupQueryResponse_def read_TypeError_def write_TypeError_def lookup_prop_def
        sample_world_def)

section \<open>Conditional update\<close>

lemma httpPut_sent:
  "sent (snd (httpPut t c path body etag w)) =
     sent w @ [\<lparr>verb = PUT, url = makeUrl c path [], payload = Some body,
                 config = \<lparr>headers = [(''api-key'', apikey c), (''User-Agent'', userAgent c)]
                 @ (case etag of
                      Some e \<Rightarrow> if e = [] then [] else [(''if-match'', e)]
                    | None \<Rightarrow> [])\<rparr>\<rparr>]"
  by (auto simp add: httpPut_def Axios_put_def Axios_request_def makeRequestConfig_def Let_def
      split: prod.splits sum.splits option.splits)

text \<open>
  C9. \<open>updateResource\<close> with the empty token is \<open>updateResource\<close> without a token: the same
  result, the same request. The request that is sent carries the \<^verbatim>\<open>if-match\<close> header
  exactly when the token is a non-empty string, and then with the token as its value.
\<close>

theorem updateResource_empty_etag:
  "updateResource t c resource name content (Some []) w
     = updateResource t c resource name content None w
   \<and> sent (snd (updateResource t c resource name content etag w))
       = sent w @ [update_request c resource name content etag]
   \<and> map_of (headers (config (update_request c resource name content (Some [])))) ''if-match'' = None
   \<and> map_of (headers (config (update_request c resource name content None))) ''if-match'' = None
   \<and> (\<forall>e. e \<noteq> [] \<longrightarrow>
         map_of (headers (config (update_request c resource name content (Some e)))) ''if-match''
           = Some e)"
proof -
  have "updateResource t c resource name content (Some []) w
          = updateResource t c resource name content None w"
    by (simp add: updateResource_def httpPut_def)
  moreover have "sent (snd (updateResource t c resource name content etag w))
       = sent w @ [update_request c resource name content etag]"
    by (simp add: updateResource_def httpPut_sent update_request_def)
  ultimately show ?thesis
    by (simp add: update_request_def)
qed

theorem updateResource_empty_etag_witness:
  "updateResource reply_page sample_client ''indexes'' ''hotels'' (JRef 0) (Some []) sample_world
     = updateResource reply_page sample_client ''indexes'' ''hotels'' (JRef 0) None sample_world
   \<and> sent (snd (updateResource reply_page sample_client ''indexes'' ''hotels'' (JRef 0) (Some [])
                  sample_world))
       = [\<lparr>verb = PUT, url = ''https://svc.search.windows.net/indexes/hotels?api-version=2019-05-06'',
           payload = Some (JRef 0),
           config = \<lparr>headers = [(''api-key'', ''secret''), (''User-Agent'', ''ext/1.0'')]\<rparr>\<rparr>]
   \<and> ''0x8D7'' \<noteq> []
   \<and> map_of (headers (config (update_request sample_client ''indexes'' ''hotels'' (JRef 0)
                                  (Some ''0x8D7'')))) ''if-match'' = Some ''0x8D7''"
proof -
  note inst = updateResource_empty_etag [of reply_page sample_client "''indexes''" "''hotels''"
               "JRef 0" sample_world "Some []"]
  have a: "updateResource reply_page sample_client ''indexes'' ''hotels'' (JRef 0) (Some []) sample_world
     = updateResource reply_page sample_client ''indexes'' ''hotels'' (JRef 0) None sample_world"
    using inst by (rule conjunct1)
  have b: "sent (snd (updateResource reply_page sample_client ''indexes'' ''hotels'' (JRef 0) (Some [])
                  sample_world))
       = sent sample_world @ [update_request sample_client ''indexes'' ''hotels'' (JRef 0) (Some [])]"
    using inst [THEN conjunct2] by (rule conjunct1)
  have c: "map_of (headers (config (update_request sample_client ''indexes'' ''hotels'' (JRef 0)
                                  (Some ''0x8D7'')))) ''if-match'' = Some ''0x8D7''"
    using inst [THEN conjunct2, THEN conjunct2, THEN conjunct2, THEN conjunct2, rule_format,
               of "''0x8D7''"]
    by simp
  have d: "sent sample_world @ [update_request sample_client ''indexes'' ''hotels'' (JRef 0) (Some [])]
       = [\<lparr>verb = PUT, url = ''https://svc.search.windows.net/indexes/hotels?api-version=2019-05-06'',
           payload = Some (JRef 0),
           config = \<lparr>headers = [(''api-key'', ''secret''), (''User-Agent'', ''ext/1.0'')]\<rparr>\<rparr>]"
    by (simp add: sample_client_def sample_world_def update_request_def makeUrl_def API_VERSION_def)
  show ?thesis
    unfolding b d using a c by simp
qed

section \<open>Document lookup\<close>

lemma httpGetUrl_sent:
  "sent (snd (httpGetUrl t c u w)) = sent w @ [get_request c u]"
  by (auto simp add: httpGetUrl_def Axios_get_def Axios_request_def get_request_def
      split: prod.splits sum.splits)

subsection \<open>Reading the escapes back\<close>

lemma hex_digit:
  assumes "0 \<le> d" and "d < 16"
  shows "hex_value (''0123456789ABCDEF'' ! nat d) = d"
    and "''0123456789ABCDEF'' ! nat d \<in> set ''0123456789ABCDEF''"
proof -
  from assms have "d < 8 \<and> (d = 0 \<or> d = 1 \<or> d = 2 \<or> d = 3 \<or> d = 4 \<or> d = 5 \<or> d = 6 \<or> d = 7)
      \<or> 8 \<le> d \<and> (d = 8 \<or> d = 9 \<or> d = 10 \<or> d = 11 \<or> d = 12 \<or> d = 13 \<or> d = 14 \<or> d = 15)"
    by presburger
  then show "hex_value (''0123456789ABCDEF'' ! nat d) = d"
    by (elim disjE conjE) (simp_all add: hex_value_def)
  from assms show "''0123456789ABCDEF'' ! nat d \<in> set ''0123456789ABCDEF''"
    by (intro nth_mem) simp
qed

lemma unescape_percent:
  assumes "0 \<le> b" and "b < 256"
  shows "unescape (percent b @ s) = b # unescape s"
proof -
  have "0 \<le> b div 16" "b div 16 < 16" "0 \<le> b mod 16" "b mod 16 < 16"
    using assms by auto
  then have "hex_value (''0123456789ABCDEF'' ! nat (b div 16)) = b div 16"
    and "hex_value (''0123456789ABCDEF'' ! nat (b mod 16)) = b mod 16"
    by (simp_all only: hex_digit)
  then show ?thesis
    unfolding percent_def by simp
qed

lemma percent_chars:
  assumes "0 \<le> b" and "b < 256"
  shows "set (percent b) \<subseteq> escape_chars"
proof -
  have "0 \<le> b div 16" "b div 16 < 16" "0 \<le> b mod 16" "b mod 16 < 16"
    using assms by auto
  then have "''0123456789ABCDEF'' ! nat (b div 16) \<in> set ''0123456789ABCDEF''"
    and "''0123456789ABCDEF'' ! nat (b mod 16) \<in> set ''0123456789ABCDEF''"
    by (simp_all only: hex_digit)
  then have "''0123456789ABCDEF'' ! nat (b div 16) \<in> escape_chars"
    and "''0123456789ABCDEF'' ! nat (b mod 16) \<in> escape_chars"
    unfolding escape_chars_def by simp_all
  moreover have "CHR ''%'' \<in> escape_chars"
    unfolding escape_chars_def by simp
  ultimately show ?thesis unfolding percent_def by simp
qed

lemma unescape_plain:
  assumes "ch \<noteq> CHR ''%''"
  shows "unescape (ch # s) = of_char ch # unescape s"
proof (cases s)
  case Nil
  then show ?thesis by simp
next
  case (Cons a s1)
  then show ?thesis using assms by (cases s1) simp_all
qed

lemma unescape_bytes:
  assumes "\<forall>b\<in>set bs. 0 \<le> b \<and> b < 256"
  shows "unescape (concat (map percent bs) @ s) = bs @ unescape s"
  using assms by (induction bs) (simp_all add: unescape_percent)

lemma bytes_chars:
  assumes "\<forall>b\<in>set bs. 0 \<le> b \<and> b < 256"
  shows "set (concat (map percent bs)) \<subseteq> escape_chars"
  using assms percent_chars by (induction bs) simp_all

lemma utf8_bytes:
  assumes "0 \<le> cp" and "cp < 1114112"
  shows "\<forall>b\<in>set (utf8 cp). 0 \<le> b \<and> b < 256"
  using assms unfolding utf8_def by auto

lemma utf8_decode_1:
  "b < 128 \<Longrightarrow> utf8_decode (b # bs) = b # utf8_decode bs"
proof (cases bs)
  case Nil
  then show ?thesis by simp
next
  case (Cons b1 bs1)
  assume "b < 128"
  show ?thesis
  proof (cases bs1)
    case Nil
    then show ?thesis using Cons \<open>b < 128\<close> by simp
  next
    case (Cons b2 bs2)
    then show ?thesis using \<open>bs = b1 # bs1\<close> \<open>b < 128\<close> by (cases bs2) simp_all
  qed
qed

lemma utf8_decode_2:
  assumes "128 \<le> b" and "b < 224"
  shows "utf8_decode (b # b1 # bs) = ((b - 192) * 64 + (b1 - 128)) # utf8_decode bs"
proof (cases bs)
  case Nil
  then show ?thesis using assms by simp
next
  case (Cons b2 bs2)
  then show ?thesis using assms by (cases bs2) simp_all
qed

lemma utf8_decode_3:
  assumes "224 \<le> b" and "b < 240"
  shows "utf8_decode (b # b1 # b2 # bs)
           = ((b - 224) * 4096 + (b1 - 128) * 64 + (b2 - 128)) # utf8_decode bs"
  using assms by (cases bs) simp_all

lemma utf8_decode_4:
  assumes "240 \<le> b"
  shows "utf8_decode (b # b1 # b2 # b3 # bs)
           = ((b - 240) * 262144 + (b1 - 128) * 4096 + (b2 - 128) * 64 + (b3 - 128))
             # utf8_decode bs"
  using assms by simp

lemma split_3:
  fixes cp :: int
  shows "cp div 4096 * 4096 + cp div 64 mod 64 * 64 + cp mod 64 = cp"
proof -
  define x where "x = cp div 64"
  have a: "cp div 4096 = x div 64"
    unfolding x_def using zdiv_zmult2_eq [of 64 cp 64] by simp
  have b: "x div 64 * 64 + x mod 64 = x" by simp
  have c: "x * 64 + cp mod 64 = cp" unfolding x_def by simp
  define q where "q = x div 64"
  define r where "r = x mod 64"
  define r0 where "r0 = cp mod 64"
  have "q * 4096 + r * 64 + r0 = cp"
    using b c unfolding q_def [symmetric] r_def [symmetric] r0_def [symmetric] by linarith
  then show ?thesis
    unfolding a x_def [symmetric] q_def r_def r0_def .
qed

lemma split_4:
  fixes cp :: int
  shows "cp div 262144 * 262144 + cp div 4096 mod 64 * 4096 + cp div 64 mod 64 * 64 + cp mod 64 = cp"
proof -
  define y where "y = cp div 4096"
  have a: "cp div 262144 = y div 64"
    unfolding y_def using zdiv_zmult2_eq [of 64 cp4096 64 for cp4096] zdiv_zmult2_eq [of 64 cp 4096]
    by simp
  have b: "y div 64 * 64 + y mod 64 = y" by simp
  have c: "y * 4096 + cp div 64 mod 64 * 64 + cp mod 64 = cp"
    unfolding y_def by (rule split_3)
  define q where "q = y div 64"
  define r where "r = y mod 64"
  define r1 where "r1 = cp div 64 mod 64"
  define r0 where "r0 = cp mod 64"
  have "q * 262144 + r * 4096 + r1 * 64 + r0 = cp"
    using b c unfolding q_def [symmetric] r_def [symmetric] r1_def [symmetric] r0_def [symmetric]
    by linarith
  then show ?thesis
    unfolding a y_def [symmetric] q_def r_def r1_def r0_def .
qed

lemma utf8_decode_utf8:
  assumes "0 \<le> cp" and "cp < 1114112"
  shows "utf8_decode (utf8 cp @ bs) = cp # utf8_decode bs"
proof -
  consider "cp < 128" | "128 \<le> cp" "cp < 2048" | "2048 \<le> cp" "cp < 65536" | "65536 \<le> cp"
    by linarith
  then show ?thesis
  proof cases
    case 1
    then have "utf8 cp = [cp]" by (simp add: utf8_def)
    then show ?thesis using 1 by (simp add: utf8_decode_1)
  next
    case 2
    define b where "b = 192 + cp div 64"
    define b1 where "b1 = 128 + cp mod 64"
    have u: "utf8 cp = [b, b1]"
      using 2 by (simp add: utf8_def b_def b1_def)
    have "128 \<le> b" "b < 224" using 2 unfolding b_def by auto
    then have "utf8_decode (b # b1 # bs) = ((b - 192) * 64 + (b1 - 128)) # utf8_decode bs"
      by (rule utf8_decode_2)
    moreover have "(b - 192) * 64 + (b1 - 128) = cp"
      unfolding b_def b1_def by simp
    ultimately show ?thesis unfolding u by simp
  next
    case 3
    define b where "b = 224 + cp div 4096"
    define b1 where "b1 = 128 + cp div 64 mod 64"
    define b2 where "b2 = 128 + cp mod 64"
    have u: "utf8 cp = [b, b1, b2]"
      using 3 by (simp add: utf8_def b_def b1_def b2_def)
    have "224 \<le> b" "b < 240" using 3 unfolding b_def by auto
    then have "utf8_decode (b # b1 # b2 # bs)
                 = ((b - 224) * 4096 + (b1 - 128) * 64 + (b2 - 128)) # utf8_decode bs"
      by (rule utf8_decode_3)
    moreover have "(b - 224) * 4096 + (b1 - 128) * 64 + (b2 - 128)
                     = cp div 4096 * 4096 + cp div 64 mod 64 * 64 + cp mod 64"
      unfolding b_def b1_def b2_def by simp
    ultimately show ?thesis unfolding u split_3 by simp
  next
    case 4
    define b where "b = 240 + cp div 262144"
    define b1 where "b1 = 128 + cp div 4096 mod 64"
    define b2 where "b2 = 128 + cp div 64 mod 64"
    define b3 where "b3 = 128 + cp mod 64"
    have u: "utf8 cp = [b, b1, b2, b3]"
      using 4 by (simp add: utf8_def b_def b1_def b2_def b3_def)
    have "240 \<le> b" using 4 unfolding b_def by auto
    then have "utf8_decode (b # b1 # b2 # b3 # bs)
                 = ((b - 240) * 262144 + (b1 - 128) * 4096 + (b2 - 128) * 64 + (b3 - 128))
                   # utf8_decode bs"
      by (rule utf8_decode_4)
    moreover have "(b - 240) * 262144 + (b1 - 128) * 4096 + (b2 - 128) * 64 + (b3 - 128)
                     = cp div 262144 * 262144 + cp div 4096 mod 64 * 4096 + cp div 64 mod 64 * 64
                       + cp mod 64"
      unfolding b_def b1_def b2_def b3_def by simp
    ultimately show ?thesis unfolding u split_4 by simp
  qed
qed

lemma utf16_unit:
  "cp < 65536 \<Longrightarrow> utf16 cp = [cp]"
  by (simp add: utf16_def)

lemma pair_bounds:
  assumes "leading u" and "trailing u'"
  shows "65536 \<le> (u - 55296) * 1024 + (u' - 56320) + 65536"
    and "(u - 55296) * 1024 + (u' - 56320) + 65536 < 1114112"
  using assms unfolding leading_def trailing_def by auto

lemma utf16_pair:
  assumes "leading u" and "trailing u'"
  shows "utf16 ((u - 55296) * 1024 + (u' - 56320) + 65536) = [u, u']"
proof -
  define e where "e = u - 55296"
  define d where "d = u' - 56320"
  have d: "0 \<le> d" "d < 1024" and e: "0 \<le> e"
    using assms unfolding leading_def trailing_def d_def e_def by auto
  have "(e * 1024 + d) div 1024 = e" and "(e * 1024 + d) mod 1024 = d"
    using d by simp_all
  moreover have "\<not> e * 1024 + d + 65536 < 65536"
    using d e by simp
  ultimately have "utf16 (e * 1024 + d + 65536) = [55296 + e, 56320 + d]"
    by (simp add: utf16_def)
  then show ?thesis unfolding e_def d_def by simp
qed

lemma unescaped_key_Nil: "unescaped_key [] = []"
  by (simp add: unescaped_key_def)

lemma unescaped_key_unreserved:
  assumes "0 \<le> u" and "u < 128" and "unreserved (char_of u)"
  shows "unescaped_key (char_of u # s) = u # unescaped_key s"
proof -
  have "char_of u \<noteq> CHR ''%''"
    using assms(3) by (auto simp add: unreserved_def)
  then have "unescape (char_of u # s) = of_char (char_of u) # unescape s"
    by (rule unescape_plain)
  moreover have "of_char (char_of u) = u"
    using assms(1,2) by (simp add: of_char_of)
  ultimately have "unescape (char_of u # s) = u # unescape s"
    by simp
  then show ?thesis
    using assms(2) by (simp add: unescaped_key_def utf8_decode_1 utf16_unit)
qed

lemma unescaped_key_escape:
  assumes "0 \<le> cp" and "cp < 1114112"
  shows "unescaped_key (escape cp @ s) = utf16 cp @ unescaped_key s"
proof -
  have "unescape (escape cp @ s) = utf8 cp @ unescape s"
    unfolding escape_def using utf8_bytes [OF assms] by (rule unescape_bytes)
  then show ?thesis
    by (simp add: unescaped_key_def utf8_decode_utf8 [OF assms])
qed

lemma escape_written:
  assumes "0 \<le> cp" and "cp < 1114112"
  shows "set (escape cp) \<subseteq> escape_chars"
  unfolding escape_def using utf8_bytes [OF assms] by (rule bytes_chars)

lemma reserved_not_written:
  "CHR ''/'' \<notin> {x. unreserved x} \<union> escape_chars"
  "CHR ''?'' \<notin> {x. unreserved x} \<union> escape_chars"
  "CHR ''&'' \<notin> {x. unreserved x} \<union> escape_chars"
  "CHR ''#'' \<notin> {x. unreserved x} \<union> escape_chars"
  by (simp_all add: unreserved_def escape_chars_def)

subsection \<open>One step of the encoder\<close>

lemma Encode_unreserved:
  assumes "u < 128" and "unreserved (char_of u)"
  shows "Encode (u # us) = followed_by [char_of u] (Encode us)"
  using assms by (cases us) (simp_all add: followed_by_def)

lemma Encode_unit:
  assumes "\<not> (u < 128 \<and> unreserved (char_of u))" and "\<not> leading u" and "\<not> trailing u"
  shows "Encode (u # us) = followed_by (escape u) (Encode us)"
  using assms by (cases us) (auto simp add: followed_by_def)

lemma Encode_pair:
  assumes "leading u" and "trailing u'"
  shows "Encode (u # u' # us)
           = followed_by (escape ((u - 55296) * 1024 + (u' - 56320) + 65536)) (Encode us)"
proof -
  have "\<not> u < 128" and "\<not> trailing u"
    using assms(1) unfolding leading_def trailing_def by auto
  then show ?thesis using assms by simp
qed

lemma Encode_trailing:
  assumes "trailing u"
  shows "Encode (u # us) = Inl (URIError ''URI malformed'')"
proof -
  have "\<not> u < 128"
    using assms unfolding trailing_def by auto
  then show ?thesis using assms by (cases us) simp_all
qed

lemma Encode_leading_last:
  assumes "leading u"
  shows "Encode [u] = Inl (URIError ''URI malformed'')"
proof -
  have "\<not> u < 128"
    using assms unfolding leading_def by auto
  then show ?thesis using assms by simp
qed

lemma Encode_leading_alone:
  assumes "leading u" and "\<not> trailing u'"
  shows "Encode (u # u' # us) = Inl (URIError ''URI malformed'')"
proof -
  have "\<not> u < 128" and "\<not> trailing u"
    using assms(1) unfolding leading_def trailing_def by auto
  then show ?thesis using assms by simp
qed

lemma well_formed_unit:
  assumes "\<not> leading u"
  shows "well_formed (u # us) \<longleftrightarrow> \<not> trailing u \<and> well_formed us"
  using assms by (cases us) simp_all

lemma unreserved_unit:
  assumes "0 \<le> u" and "u < 128"
  shows "\<not> leading u" and "\<not> trailing u"
  using assms unfolding leading_def trailing_def by auto

subsection \<open>The encoder on whole keys\<close>

lemma Encode_malformed:
  assumes "\<forall>u\<in>set us. 0 \<le> u"
  shows "\<not> well_formed us \<Longrightarrow> Encode us = Inl (URIError ''URI malformed'')"
  using assms
proof (induction us rule: well_formed.induct)
  case 1
  then show ?case by simp
next
  case (2 u)
  have u: "0 \<le> u" using 2 by simp
  show ?case
  proof (cases "trailing u")
    case True
    then show ?thesis by (rule Encode_trailing)
  next
    case False
    then have "leading u" using 2 by simp
    then show ?thesis by (rule Encode_leading_last)
  qed
next
  case (3 u u' us)
  have u: "0 \<le> u" using 3 by simp
  show ?case
  proof (cases "leading u")
    case True
    show ?thesis
    proof (cases "trailing u'")
      case False
      with True show ?thesis by (rule Encode_leading_alone)
    next
      case t: True
      have "\<not> well_formed us" using 3(3) True t by simp
      moreover have "\<forall>u\<in>set us. 0 \<le> u" using 3(4) by simp
      ultimately have "Encode us = Inl (URIError ''URI malformed'')"
        using 3(1) True by simp
      then show ?thesis
        unfolding Encode_pair [OF True t] by (simp add: followed_by_def)
    qed
  next
    case False
    show ?thesis
    proof (cases "trailing u")
      case True
      then show ?thesis by (rule Encode_trailing)
    next
      case t: False
      have "\<not> well_formed (u' # us)" using 3(3) False t by simp
      moreover have "\<forall>u\<in>set (u' # us). 0 \<le> u" using 3(4) by simp
      ultimately have ih: "Encode (u' # us) = Inl (URIError ''URI malformed'')"
        using 3(2) False by simp
      show ?thesis
      proof (cases "u < 128 \<and> unreserved (char_of u)")
        case True
        then show ?thesis
          using ih by (simp add: Encode_unreserved followed_by_def)
      next
        case False
        then show ?thesis
          using ih \<open>\<not> leading u\<close> t by (simp add: Encode_unit followed_by_def)
      qed
    qed
  qed
qed

lemma Encode_roundtrip:
  assumes "\<forall>u\<in>set us. 0 \<le> u \<and> u < 65536"
  shows "well_formed us \<Longrightarrow>
           \<exists>s. Encode us = Inr s \<and> unescaped_key s = us
               \<and> set s \<subseteq> {x. unreserved x} \<union> escape_chars"
  using assms
proof (induction us rule: well_formed.induct)
  case 1
  then show ?case by (simp add: unescaped_key_Nil)
next
  case (2 u)
  have u: "0 \<le> u" "u < 65536" "\<not> leading u" "\<not> trailing u" using 2 by simp_all
  show ?case
  proof (cases "u < 128 \<and> unreserved (char_of u)")
    case True
    then have "Encode [u] = Inr [char_of u]" by simp
    moreover have "unescaped_key [char_of u] = [u]"
      using True u(1) by (simp add: unescaped_key_unreserved unescaped_key_Nil)
    moreover have "set [char_of u] \<subseteq> {x. unreserved x} \<union> escape_chars"
      using True by simp
    ultimately show ?thesis by simp
  next
    case False
    then have "Encode [u] = Inr (escape u)" using u by auto
    moreover have "unescaped_key (escape u @ []) = utf16 u @ unescaped_key []"
      using u by (intro unescaped_key_escape) simp_all
    then have "unescaped_key (escape u) = [u]"
      using u(2) by (simp add: unescaped_key_Nil utf16_unit)
    moreover have "set (escape u) \<subseteq> escape_chars"
      using u by (intro escape_written) simp_all
    ultimately show ?thesis by auto
  qed
next
  case (3 u u' us)
  have u: "0 \<le> u" "u < 65536" using 3 by simp_all
  show ?case
  proof (cases "leading u")
    case True
    then have t: "trailing u'" and wf: "well_formed us" using 3(3) by simp_all
    have "\<forall>u\<in>set us. 0 \<le> u \<and> u < 65536" using 3(4) by simp
    then obtain s where s: "Encode us = Inr s" "unescaped_key s = us"
        "set s \<subseteq> {x. unreserved x} \<union> escape_chars"
      using 3(1) True wf by blast
    define cp where "cp = (u - 55296) * 1024 + (u' - 56320) + 65536"
    have cp: "0 \<le> cp" "cp < 1114112"
      using pair_bounds [OF True t] unfolding cp_def by simp_all
    have "Encode (u # u' # us) = Inr (escape cp @ s)"
      unfolding Encode_pair [OF True t] cp_def [symmetric] s(1) by (simp add: followed_by_def)
    moreover have "unescaped_key (escape cp @ s) = u # u' # us"
      unfolding unescaped_key_escape [OF cp] s(2)
      unfolding cp_def utf16_pair [OF True t] by simp
    moreover have "set (escape cp @ s) \<subseteq> {x. unreserved x} \<union> escape_chars"
      using escape_written [OF cp] s(3) by auto
    ultimately show ?thesis by blast
  next
    case False
    then have t: "\<not> trailing u" and wf: "well_formed (u' # us)" using 3(3) by simp_all
    have "\<forall>u\<in>set (u' # us). 0 \<le> u \<and> u < 65536" using 3(4) by simp
    then obtain s where s: "Encode (u' # us) = Inr s" "unescaped_key s = u' # us"
        "set s \<subseteq> {x. unreserved x} \<union> escape_chars"
      using 3(2) False wf by blast
    show ?thesis
    proof (cases "u < 128 \<and> unreserved (char_of u)")
      case True
      then have "Encode (u # u' # us) = Inr (char_of u # s)"
        using s(1) by (simp add: Encode_unreserved followed_by_def)
      moreover have "unescaped_key (char_of u # s) = u # u' # us"
        using True u(1) s(2) by (simp add: unescaped_key_unreserved)
      moreover have "set (char_of u # s) \<subseteq> {x. unreserved x} \<union> escape_chars"
        using True s(3) by simp
      ultimately show ?thesis by blast
    next
      case p: False
      have cp: "0 \<le> u" "u < 1114112" using u by simp_all
      have "Encode (u # u' # us) = Inr (escape u @ s)"
        unfolding Encode_unit [OF p False t] s(1) by (simp add: followed_by_def)
      moreover have "unescaped_key (escape u @ s) = u # u' # us"
        unfolding unescaped_key_escape [OF cp] s(2) using u(2) by (simp add: utf16_unit)
      moreover have "set (escape u @ s) \<subseteq> {x. unreserved x} \<union> escape_chars"
        using escape_written [OF cp] s(3) by auto
      ultimately show ?thesis by blast
    qed
  qed
qed

lemma Encode_verbatim:
  assumes "\<forall>u\<in>set us. u < 128 \<and> unreserved (char_of u)"
  shows "Encode us = Inr (map char_of us)"
  using assms by (induction us) (simp_all add: Encode_unreserved followed_by_def)

lemma units_bounded:
  fixes k :: "16 word list"
  shows "\<forall>u\<in>set (map uint k). 0 \<le> u \<and> u < 65536"
proof
  fix u assume "u \<in> set (map uint k)"
  then obtain x :: "16 word" where "u = uint x" by auto
  then show "0 \<le> u \<and> u < 65536"
    using uint_bounded [of x] by simp
qed

lemma lookup_sent:
  "encodeURIComponent k = Inr s \<Longrightarrow>
     sent (snd (lookup t c indexName k w))
       = sent w @ [get_request c (makeUrl c (''indexes/'' @ indexName @ ''/docs/'' @ s) [])]"
  using httpGetUrl_sent [of t c "makeUrl c (''indexes/'' @ indexName @ ''/docs/'' @ s) []" w]
  by (auto simp add: lookup_def httpGet_def split: prod.splits sum.splits)

text \<open>
  C10. \<open>lookup\<close> embeds the key percent-encoded in the path and returns the body as it
  came. For a key in which every surrogate code unit has its partner,
  \<^verbatim>\<open>encodeURIComponent(key)\<close> returns a string \<open>s\<close> that reads back as the key (escapes to
  bytes, bytes to code points, code points to code units), that is written with the
  unreserved characters, \<^verbatim>\<open>%\<close> and the sixteen upper-case hexadecimal digits only, so that
  none of \<^verbatim>\<open>/\<close>, \<^verbatim>\<open>?\<close>, \<^verbatim>\<open>&\<close> and \<^verbatim>\<open>#\<close> is in it, and that is the key itself when
  the key has unreserved characters only; one GET request is sent, for the path
  \<^verbatim>\<open>indexes/{indexName}/docs/\<close> followed by \<open>s\<close>; when the service answers, the body is
  returned as it came and the store is as the transport left it: no fixup. For a key
  with a surrogate code unit without its partner, \<open>lookup\<close> raises \<^verbatim>\<open>URIError\<close> and
  sends nothing.
\<close>

theorem lookup_encoded:
  "(well_formed (map uint k) \<longrightarrow>
      (\<exists>s. encodeURIComponent k = Inr s
         \<and> unescaped_key s = map uint k
         \<and> set s \<subseteq> {ch. unreserved ch} \<union> escape_chars
         \<and> set s \<inter> {CHR ''/'', CHR ''?'', CHR ''&'', CHR ''#''} = {}
         \<and> ((\<forall>u\<in>set k. uint u < 128 \<and> unreserved (char_of (uint u)))
              \<longrightarrow> s = map (\<lambda>u. char_of (uint u)) k)
         \<and> sent (snd (lookup t c indexName k w))
             = sent w @ [get_request c (makeUrl c (''indexes/'' @ indexName @ ''/docs/'' @ s) [])]
         \<and> (\<forall>r w1. httpGet t c (''indexes/'' @ indexName @ ''/docs/'' @ s) [] w = (Inr r, w1)
                \<longrightarrow> lookup t c indexName k w = (Inr (data r), w1))))
   \<and> (\<not> well_formed (map uint k) \<longrightarrow>
        lookup t c indexName k w = (Inl (URIError ''URI malformed''), w))"
proof (intro conjI impI)
  assume wf: "well_formed (map uint k)"
  obtain s where s: "Encode (map uint k) = Inr s" "unescaped_key s = map uint k"
      "set s \<subseteq> {x. unreserved x} \<union> escape_chars"
    using Encode_roundtrip [OF units_bounded wf] by blast
  have enc: "encodeURIComponent k = Inr s"
    using s(1) by (simp add: encodeURIComponent_def)
  have res: "set s \<inter> {CHR ''/'', CHR ''?'', CHR ''&'', CHR ''#''} = {}"
    using s(3) reserved_not_written by auto
  have plain: "s = map (\<lambda>u. char_of (uint u)) k"
    if "\<forall>u\<in>set k. uint u < 128 \<and> unreserved (char_of (uint u))"
  proof -
    have "\<forall>u\<in>set (map uint k). u < 128 \<and> unreserved (char_of u)"
      using that by simp
    then have "Encode (map uint k) = Inr (map char_of (map uint k))"
      by (rule Encode_verbatim)
    then show ?thesis using s(1) by (simp add: comp_def)
  qed
  have answer: "lookup t c indexName k w = (Inr (data r), w1)"
    if "httpGet t c (''indexes/'' @ indexName @ ''/docs/'' @ s) [] w = (Inr r, w1)" for r w1
    using that enc by (simp add: lookup_def)
  show "\<exists>s. encodeURIComponent k = Inr s
         \<and> unescaped_key s = map uint k
         \<and> set s \<subseteq> {ch. unreserved ch} \<union> escape_chars
         \<and> set s \<inter> {CHR ''/'', CHR ''?'', CHR ''&'', CHR ''#''} = {}
         \<and> ((\<forall>u\<in>set k. uint u < 128 \<and> unreserved (char_of (uint u)))
              \<longrightarrow> s = map (\<lambda>u. char_of (uint u)) k)
         \<and> sent (snd (lookup t c indexName k w))
             = sent w @ [get_request c (makeUrl c (''indexes/'' @ indexName @ ''/docs/'' @ s) [])]
         \<and> (\<forall>r w1. httpGet t c (''indexes/'' @ indexName @ ''/docs/'' @ s) [] w = (Inr r, w1)
                \<longrightarrow> lookup t c indexName k w = (Inr (data r), w1))"
  proof (intro exI conjI impI allI)
    show "encodeURIComponent k = Inr s" by (rule enc)
    show "unescaped_key s = map uint k" by (rule s(2))
    show "set s \<subseteq> {ch. unreserved ch} \<union> escape_chars" by (rule s(3))
    show "set s \<inter> {CHR ''/'', CHR ''?'', CHR ''&'', CHR ''#''} = {}" by (rule res)
    show "s = map (\<lambda>u. char_of (uint u)) k"
      if "\<forall>u\<in>set k. uint u < 128 \<and> unreserved (char_of (uint u))"
      using that by (rule plain)
    show "sent (snd (lookup t c indexName k w))
            = sent w @ [get_request c (makeUrl c (''indexes/'' @ indexName @ ''/docs/'' @ s) [])]"
      using enc by (rule lookup_sent)
    show "lookup t c indexName k w = (Inr (data r), w1)"
      if "httpGet t c (''indexes/'' @ indexName @ ''/docs/'' @ s) [] w = (Inr r, w1)" for r w1
      using that by (rule answer)
  qed
next
  assume "\<not> well_formed (map uint k)"
  moreover have "\<forall>u\<in>set (map uint k). 0 \<le> u"
    using units_bounded [of k] by blast
  ultimately have "Encode (map uint k) = Inl (URIError ''URI malformed'')"
    using Encode_malformed by blast
  then show "lookup t c indexName k w = (Inl (URIError ''URI malformed''), w)"
    by (simp add: lookup_def encodeURIComponent_def)
qed

theorem lookup_encoded_witness:
  "well_formed (map uint sample_key)
   \<and> encodeURIComponent sample_key = Inr ''a%2Fb%3Fc%26d%23e''
   \<and> sent (snd (lookup reply_page sample_client ''hotels'' sample_key sample_world))
       = [get_request sample_client
            ''https://svc.search.windows.net/indexes/hotels/docs/a%2Fb%3Fc%26d%23e?api-version=2019-05-06'']
   \<and> lookup reply_page sample_client ''hotels'' sample_key sample_world
       = (Inr (JRef 1),
          \<lparr>objs = objs sample_world @ sample_page (objs sample_world),
           sent = [get_request sample_client
            ''https://svc.search.windows.net/indexes/hotels/docs/a%2Fb%3Fc%26d%23e?api-version=2019-05-06'']\<rparr>)
   \<and> well_formed (map uint wide_key)
   \<and> encodeURIComponent wide_key = Inr ''%C3%A9%E2%82%AC%F0%9F%98%80A''
   \<and> unescaped_key ''%C3%A9%E2%82%AC%F0%9F%98%80A'' = [0xE9, 0x20AC, 0xD83D, 0xDE00, 0x41]
   \<and> well_formed (map uint plain_key)
   \<and> encodeURIComponent plain_key = Inr ''hotel-42''
   \<and> \<not> well_formed (map uint broken_key)
   \<and> lookup reply_page sample_client ''hotels'' broken_key sample_world
       = (Inl (URIError ''URI malformed''), sample_world)"
proof -
  let ?u = "''https://svc.search.windows.net/indexes/hotels/docs/a%2Fb%3Fc%26d%23e?api-version=2019-05-06''"
  let ?r = "\<lparr>data = JRef 1, response_headers = []\<rparr> :: jsval AxiosResponse"
  let ?w1 = "\<lparr>objs = objs sample_world @ sample_page (objs sample_world),
              sent = [get_request sample_client ?u]\<rparr>"
  have units: "map uint wide_key = [0xE9, 0x20AC, 0xD83D, 0xDE00, 0x41]"
    by code_simp
  have wf: "well_formed (map uint sample_key)" "well_formed (map uint wide_key)"
    "well_formed (map uint plain_key)" "\<not> well_formed (map uint broken_key)"
    by code_simp+
  have enc: "encodeURIComponent sample_key = Inr ''a%2Fb%3Fc%26d%23e''"
    by code_simp
  have enc2: "encodeURIComponent wide_key = Inr ''%C3%A9%E2%82%AC%F0%9F%98%80A''"
    by code_simp
  have pl: "\<forall>u\<in>set plain_key. uint u < 128 \<and> unreserved (char_of (uint u))"
    by code_simp
  have pm: "map (\<lambda>u. char_of (uint u)) plain_key = ''hotel-42''"
    by code_simp
  have u: "makeUrl sample_client (''indexes/'' @ ''hotels'' @ ''/docs/'' @ ''a%2Fb%3Fc%26d%23e'') [] = ?u"
    by (simp add: makeUrl_def API_VERSION_def sample_client_def)
  have a: "httpGet reply_page sample_client
             (''indexes/'' @ ''hotels'' @ ''/docs/'' @ ''a%2Fb%3Fc%26d%23e'') [] sample_world
           = (Inr ?r, ?w1)"
    unfolding httpGet_def u
    by (simp add: httpGetUrl_def Axios_get_def Axios_request_def reply_page_def sample_page_def
          sample_world_def get_request_def)
  note one = lookup_encoded [of sample_key reply_page sample_client "''hotels''" sample_world,
                             THEN conjunct1, rule_format, OF wf(1)]
  note two = lookup_encoded [of wide_key reply_page sample_client "''hotels''" sample_world,
                             THEN conjunct1, rule_format, OF wf(2)]
  note three = lookup_encoded [of plain_key reply_page sample_client "''hotels''" sample_world,
                               THEN conjunct1, rule_format, OF wf(3)]
  note four = lookup_encoded [of broken_key reply_page sample_client "''hotels''" sample_world,
                              THEN conjunct2, rule_format, OF wf(4)]
  obtain s where s: "encodeURIComponent sample_key = Inr s"
      "sent (snd (lookup reply_page sample_client ''hotels'' sample_key sample_world))
         = sent sample_world
           @ [get_request sample_client
                (makeUrl sample_client (''indexes/'' @ ''hotels'' @ ''/docs/'' @ s) [])]"
      "\<forall>r w1. httpGet reply_page sample_client (''indexes/'' @ ''hotels'' @ ''/docs/'' @ s) []
                  sample_world = (Inr r, w1)
          \<longrightarrow> lookup reply_page sample_client ''hotels'' sample_key sample_world = (Inr (data r), w1)"
    using one by (elim exE conjE)
  have s_eq: "s = ''a%2Fb%3Fc%26d%23e''"
    using s(1) enc by simp
  have b: "sent (snd (lookup reply_page sample_client ''hotels'' sample_key sample_world))
             = [get_request sample_client ?u]"
    using s(2) unfolding s_eq u by (simp add: sample_world_def)
  have c: "lookup reply_page sample_client ''hotels'' sample_key sample_world = (Inr (JRef 1), ?w1)"
    using s(3) [unfolded s_eq, rule_format, OF a] by simp
  obtain s2 where s2: "encodeURIComponent wide_key = Inr s2"
      "unescaped_key s2 = map uint wide_key"
      "set s2 \<inter> {CHR ''/'', CHR ''?'', CHR ''&'', CHR ''#''} = {}"
    using two by (elim exE conjE)
  have d: "unescaped_key ''%C3%A9%E2%82%AC%F0%9F%98%80A'' = [0xE9, 0x20AC, 0xD83D, 0xDE00, 0x41]"
    using s2(1,2) unfolding units enc2 by simp
  obtain s3 where s3: "encodeURIComponent plain_key = Inr s3"
      "(\<forall>u\<in>set plain_key. uint u < 128 \<and> unreserved (char_of (uint u)))
        \<longrightarrow> s3 = map (\<lambda>u. char_of (uint u)) plain_key"
    using three by (elim exE conjE)
  have e: "encodeURIComponent plain_key = Inr ''hotel-42''"
    using s3 pl pm by simp
  show ?thesis
    using wf(1) enc b c wf(2) enc2 d wf(3) e wf(4) four by (intro conjI)
qed

text \<open>
  C10 as stated fails for a key with a lone surrogate: for the key \<^verbatim>\<open>"A\uD83D"\<close> the
  builtin raises, so the key is not embedded in any path and no request is sent.
\<close>

theorem lookup_encoded_counterexample:
  "lookup reply_page sample_client ''hotels'' broken_key sample_world
     = (Inl (URIError ''URI malformed''), sample_world)
   \<and> sent (snd (lookup reply_page sample_client ''hotels'' broken_key sample_world)) = []"
proof -
  have "encodeURIComponent broken_key = Inl (URIError ''URI malformed'')"
    by code_simp
  then show ?thesis
    by (simp add: lookup_def sample_world_def)
qed

end
